theory Spec2Isabelle
  imports Main "HOL-Library.List_Lexorder" "HOL-Library.Char_ord" "HOL-Library.Multiset"
begin

section \<open>JavaScript values reaching the storage layer\<close>

text \<open>
  The storage classes receive plain JavaScript data from the caller. The fields of the
  argument objects are modelled by the primitive values the code tests for
  (\<^verbatim>\<open>typeof x === "string"\<close>, \<^verbatim>\<open>typeof x === "boolean"\<close>, \<^verbatim>\<open>x !== undefined\<close>,
  \<^verbatim>\<open>!!x\<close>, \<^verbatim>\<open>String(x)\<close>). Numbers are the integers that \<^verbatim>\<open>String\<close> prints in plain
  decimal; strings are UTF-8 encoded, as they are in the JSON file and in the database,
  so a character outside ASCII is several bytes.
\<close>

datatype jsval = JUndefined | JNull | JBool bool | JNum int | JStr string

text \<open>\<^verbatim>\<open>!!v\<close>: the truthiness of a primitive value.\<close>

fun truthy :: "jsval \<Rightarrow> bool" where
  "truthy JUndefined = False"
| "truthy JNull = False"
| "truthy (JBool b) = b"
| "truthy (JNum n) = (n \<noteq> 0)"
| "truthy (JStr s) = (s \<noteq> [])"

definition digit :: "nat \<Rightarrow> char" where
  "digit d = char_of (48 + d)"

fun dec_digits :: "nat \<Rightarrow> string" where
  "dec_digits n = (if n < 10 then [digit n] else dec_digits (n div 10) @ [digit (n mod 10)])"

declare dec_digits.simps [simp del]

text \<open>\<^verbatim>\<open>String(v)\<close> on a primitive value.\<close>

fun js_String :: "jsval \<Rightarrow> string" where
  "js_String JUndefined = ''undefined''"
| "js_String JNull = ''null''"
| "js_String (JBool b) = (if b then ''true'' else ''false'')"
| "js_String (JNum n) = (if n < 0 then CHR ''-'' # dec_digits (nat (- n)) else dec_digits (nat n))"
| "js_String (JStr s) = s"

text \<open>
  \<^verbatim>\<open>String.prototype.trim\<close> removes white space and line terminators from both ends
  of a string. These are the code points U+0009 (TAB), U+000A (LF), U+000B (VT), U+000C
  (FF), U+000D (CR), U+0020 (SPACE), U+00A0 (NBSP), U+1680, U+2000 to U+200A, U+2028 (LS),
  U+2029 (PS), U+202F, U+205F, U+3000 and U+FEFF (BOM). A string is its UTF-8 bytes, so
  each of them is the byte sequence that encodes it, in the order just given.
\<close>

definition js_whitespace :: "string list" where
  "js_whitespace =
     [[CHR 0x09], [CHR 0x0A], [CHR 0x0B], [CHR 0x0C], [CHR 0x0D], [CHR 0x20],
      [CHR 0xC2, CHR 0xA0],
      [CHR 0xE1, CHR 0x9A, CHR 0x80],
      [CHR 0xE2, CHR 0x80, CHR 0x80], [CHR 0xE2, CHR 0x80, CHR 0x81],
      [CHR 0xE2, CHR 0x80, CHR 0x82], [CHR 0xE2, CHR 0x80, CHR 0x83],
      [CHR 0xE2, CHR 0x80, CHR 0x84], [CHR 0xE2, CHR 0x80, CHR 0x85],
      [CHR 0xE2, CHR 0x80, CHR 0x86], [CHR 0xE2, CHR 0x80, CHR 0x87],
      [CHR 0xE2, CHR 0x80, CHR 0x88], [CHR 0xE2, CHR 0x80, CHR 0x89],
      [CHR 0xE2, CHR 0x80, CHR 0x8A],
      [CHR 0xE2, CHR 0x80, CHR 0xA8], [CHR 0xE2, CHR 0x80, CHR 0xA9],
      [CHR 0xE2, CHR 0x80, CHR 0xAF],
      [CHR 0xE2, CHR 0x81, CHR 0x9F],
      [CHR 0xE3, CHR 0x80, CHR 0x80],
      [CHR 0xEF, CHR 0xBB, CHR 0xBF]]"

text \<open>
  A string starts with a given non-empty sequence; stripping removes such sequences from
  the front for as long as there is one. At the end of a string the sequences are found
  reversed in the reversed string; the first byte of each is no continuation byte, so in
  well-formed UTF-8 what is found at either end is a whole character.
\<close>

definition starts_with :: "string \<Rightarrow> string \<Rightarrow> bool" where
  "starts_with s q = (q \<noteq> [] \<and> take (length q) s = q)"

function strip_leading :: "string list \<Rightarrow> string \<Rightarrow> string" where
  "strip_leading qs s =
     (case find (starts_with s) qs of
        None \<Rightarrow> s
      | Some q \<Rightarrow> strip_leading qs (drop (length q) s))"
  by pat_completeness auto
termination
proof (relation "measure (\<lambda>(qs, s). length s)")
  show "wf (measure (\<lambda>(qs, s). length s))" by simp
next
  fix qs :: "string list" and s q :: string
  assume "find (starts_with s) qs = Some q"
  then have "starts_with s q" by (auto simp: find_Some_iff)
  then have "q \<noteq> []" "length q \<le> length s"
    by (auto simp: starts_with_def) (metis length_take min.cobounded1)
  then show "((qs, drop (length q) s), (qs, s)) \<in> measure (\<lambda>(qs, s). length s)"
    by (cases q) auto
qed

declare strip_leading.simps [simp del]

definition trim :: "string \<Rightarrow> string" where
  "trim s = rev (strip_leading (map rev js_whitespace) (rev (strip_leading js_whitespace s)))"

text \<open>
  The data model's wording: a title is rejected when it is empty or whitespace-only, that
  is, when every character of it is white space or a line terminator. The characters of
  a string are its UTF-8 sequences, whose lengths their first bytes tell.
\<close>

definition lead_length :: "char \<Rightarrow> nat" where
  "lead_length c =
     (if c < CHR 0x80 then 1 else if c < CHR 0xE0 then 2 else if c < CHR 0xF0 then 3 else 4)"

fun chars :: "string \<Rightarrow> string list" where
  "chars [] = []"
| "chars (c # s) = (c # take (lead_length c - 1) s) # chars (drop (lead_length c - 1) s)"

definition blank :: "string \<Rightarrow> bool" where
  "blank s = list_all (\<lambda>c. c \<in> set js_whitespace) (chars s)"

section \<open>The Todo record and the argument objects\<close>

record todo =
  id' :: string
  title :: string
  description :: string
  done' :: bool
  createdAt :: string
  updatedAt :: string

text \<open>
  The argument of \<^verbatim>\<open>addTodo\<close>: an object whose relevant fields are \<^verbatim>\<open>title\<close>,
  \<^verbatim>\<open>description\<close> and \<^verbatim>\<open>done\<close>; an absent field reads as \<^verbatim>\<open>undefined\<close>. A falsy
  argument (or any primitive, whose \<^verbatim>\<open>title\<close> is \<^verbatim>\<open>undefined\<close>) is \<open>None\<close>.
\<close>

record todoData =
  d_title :: jsval
  d_description :: jsval
  d_done :: jsval

text \<open>The second argument of \<^verbatim>\<open>updateTodo\<close> (default \<^verbatim>\<open>{}\<close>, all fields undefined).\<close>

record patch =
  p_title :: jsval
  p_description :: jsval
  p_done :: jsval

datatype error =
    ConfigurationError
  | ValidationError
  | NotInitialized
  | TypeError
  | MediumError string

type_synonym ('a, 's, 'w) outcome = "(error + 'a) \<times> 's \<times> 'w"

section \<open>The insertion-ordered Map\<close>

text \<open>
  A JavaScript \<^verbatim>\<open>Map\<close> iterates in insertion order; \<^verbatim>\<open>set\<close> on a present key replaces
  the value in place, on a new key it appends.
\<close>

fun map_set :: "'k \<Rightarrow> 'v \<Rightarrow> ('k \<times> 'v) list \<Rightarrow> ('k \<times> 'v) list" where
  "map_set k v [] = [(k, v)]"
| "map_set k v (p # ps) = (if fst p = k then (k, v) # ps else p # map_set k v ps)"

definition map_has :: "'k \<Rightarrow> ('k \<times> 'v) list \<Rightarrow> bool" where
  "map_has k m = (map_of m k \<noteq> None)"

definition map_get :: "'k \<Rightarrow> ('k \<times> 'v) list \<Rightarrow> 'v option" where
  "map_get k m = map_of m k"

definition map_delete :: "'k \<Rightarrow> ('k \<times> 'v) list \<Rightarrow> ('k \<times> 'v) list" where
  "map_delete k m = filter (\<lambda>p. fst p \<noteq> k) m"

definition map_values :: "('k \<times> 'v) list \<Rightarrow> 'v list" where
  "map_values m = map snd m"

text \<open>
  \<^verbatim>\<open>items.slice(start, end)\<close> on integer arguments: a negative index counts from the
  end, both are clamped to the array.
\<close>

definition slice_index :: "nat \<Rightarrow> int \<Rightarrow> nat" where
  "slice_index len i = (if i < 0 then nat (max (int len + i) 0) else min (nat i) len)"

definition slice :: "'a list \<Rightarrow> int \<Rightarrow> int \<Rightarrow> 'a list" where
  "slice xs start end =
     (let k = slice_index (length xs) start; final = slice_index (length xs) end
      in take (final - k) (drop k xs))"

section \<open>The file system seen by the File Backend\<close>

text \<open>
  A path is its directory and its base name (\<^verbatim>\<open>path.dirname\<close>, \<^verbatim>\<open>path.basename\<close>);
  \<^verbatim>\<open>path.join(dir, name)\<close> builds one.

  The text of a file is produced by \<^verbatim>\<open>JSON.stringify\<close> and read by \<^verbatim>\<open>JSON.parse\<close>,
  both of the JavaScript engine. A file is modelled by what \<^verbatim>\<open>init\<close> distinguishes in
  it: blank text, text that does not parse, JSON that is not an array, and an array,
  whose elements are either objects with a string \<^verbatim>\<open>id\<close> (taken to have the Todo shape)
  or anything else. The layout flag of an array records pretty or compact printing.
\<close>

record path =
  dirname :: string
  basename :: string

definition path_join :: "string \<Rightarrow> string \<Rightarrow> path" where
  "path_join d n = \<lparr>dirname = d, basename = n\<rparr>"

datatype json_item = Junk | Item todo

datatype content = Blank | Invalid | NotArray | Array bool "json_item list"

type_synonym fworld = "path \<Rightarrow> content option"

text \<open>
  What the environment decides during one call: the clock (\<^verbatim>\<open>new Date().toISOString()\<close>),
  the generated identifier (\<^verbatim>\<open>generateUuid()\<close>), the suffix of the temporary file name
  (\<^verbatim>\<open>Date.now()\<close> and \<^verbatim>\<open>Math.random()\<close>), and which file-system call fails, with the
  error code. A failed \<^verbatim>\<open>writeFile\<close> may leave a partial file behind. The last six
  fields are the failures of the relational engine's calls (open, \<^verbatim>\<open>exec\<close>, \<^verbatim>\<open>run\<close>,
  \<^verbatim>\<open>get\<close>, \<^verbatim>\<open>all\<close>, \<^verbatim>\<open>close\<close>).
\<close>

record env =
  now :: string
  uuid :: string
  stamp :: string
  mkdir_err :: "string option"
  read_err :: "string option"
  write_err :: "(string \<times> content option) option"
  rename_err :: "string option"
  rm_err :: "string option"
  open_err :: "string option"
  exec_err :: "string option"
  run_err :: "string option"
  get_err :: "string option"
  all_err :: "string option"
  close_err :: "string option"

definition readFile :: "env \<Rightarrow> fworld \<Rightarrow> path \<Rightarrow> string + content" where
  "readFile env w p =
     (case read_err env of
        Some e \<Rightarrow> Inl e
      | None \<Rightarrow> (case w p of None \<Rightarrow> Inl ''ENOENT'' | Some c \<Rightarrow> Inr c))"

definition writeFile :: "env \<Rightarrow> fworld \<Rightarrow> path \<Rightarrow> content \<Rightarrow> string + fworld" where
  "writeFile env w p c =
     (case write_err env of
        Some (e, leftover) \<Rightarrow> Inl e
      | None \<Rightarrow> Inr (w(p \<mapsto> c)))"

text \<open>The file system after a failed \<^verbatim>\<open>writeFile\<close>.\<close>

definition writeFile_failed :: "env \<Rightarrow> fworld \<Rightarrow> path \<Rightarrow> fworld" where
  "writeFile_failed env w p =
     (case write_err env of Some (e, leftover) \<Rightarrow> w(p := leftover) | None \<Rightarrow> w)"

definition rename :: "env \<Rightarrow> fworld \<Rightarrow> path \<Rightarrow> path \<Rightarrow> string + fworld" where
  "rename env w src dst =
     (case rename_err env of
        Some e \<Rightarrow> Inl e
      | None \<Rightarrow> (case w src of None \<Rightarrow> Inl ''ENOENT'' | Some c \<Rightarrow> Inr ((w(src := None))(dst \<mapsto> c))))"

text \<open>\<^verbatim>\<open>rm(p, {force: true})\<close> inside \<^verbatim>\<open>try { } catch (e) { /* ignore */ }\<close>.\<close>

definition rm_ignore :: "env \<Rightarrow> fworld \<Rightarrow> path \<Rightarrow> fworld" where
  "rm_ignore env w p = (case rm_err env of Some e \<Rightarrow> w | None \<Rightarrow> w(p := None))"

section \<open>The File Backend\<close>

record options =
  o_filepath :: "path option"
  o_pretty :: "bool option"
  o_mode :: "string option"

record file_storage =
  f_filepath :: path
  f_pretty :: bool
  f_mode :: string
  f_map :: "(string \<times> todo) list"
  f_inited :: bool
  f_dirty :: bool

definition FileStorage :: "options \<Rightarrow> error + file_storage" where
  "FileStorage opts =
     (let filepath = (case o_filepath opts of None \<Rightarrow> path_join ''db'' ''todo.json'' | Some p \<Rightarrow> p);
          pretty = (case o_pretty opts of None \<Rightarrow> True | Some b \<Rightarrow> b);
          mode = (case o_mode opts of None \<Rightarrow> ''onClose'' | Some m \<Rightarrow> m)
      in if mode \<notin> set [''onClose'', ''immediate''] then Inl ConfigurationError
         else Inr \<lparr>f_filepath = filepath, f_pretty = pretty, f_mode = mode,
                   f_map = [], f_inited = False, f_dirty = False\<rparr>)"

text \<open>The loop of \<^verbatim>\<open>init\<close> over the parsed array.\<close>

fun load_items :: "json_item list \<Rightarrow> (string \<times> todo) list \<Rightarrow> (string \<times> todo) list" where
  "load_items [] m = m"
| "load_items (Junk # items) m = load_items items m"
| "load_items (Item t # items) m = load_items items (map_set (id' t) t m)"

text \<open>
  \<^verbatim>\<open>init\<close> is asynchronous. It runs in one go up to its first \<^verbatim>\<open>await\<close>, that is, through
  the guard and \<^verbatim>\<open>this._inited = true\<close>; it then waits for \<^verbatim>\<open>mkdir\<close>, then for
  \<^verbatim>\<open>readFile\<close>, and once \<^verbatim>\<open>readFile\<close> has answered it assigns \<^verbatim>\<open>_map\<close> and \<^verbatim>\<open>_dirty\<close> in
  one go. Calls that arrive while it waits are served on the instance as it is then.

  \<open>FileStorage_init_begin\<close> is the part before the first wait; it gives \<open>None\<close> when the
  instance is already marked initialised and \<^verbatim>\<open>init\<close> returns at once.
  \<open>FileStorage_init_load\<close> is the part from \<^verbatim>\<open>readFile\<close> on, for the file system that
  \<^verbatim>\<open>readFile\<close> reads and the instance as it is when the answer arrives.
  \<open>FileStorage_init\<close> is a call of \<^verbatim>\<open>init\<close> during which no other call is served.

  The directory tree is not part of the file system modelled here: \<^verbatim>\<open>mkdir\<close> fails or
  does not, and a write into a directory that does not exist is one of the failures of
  \<^verbatim>\<open>writeFile\<close> that the environment decides.
\<close>

definition FileStorage_init_begin :: "file_storage \<Rightarrow> file_storage option" where
  "FileStorage_init_begin st = (if f_inited st then None else Some (st\<lparr>f_inited := True\<rparr>))"

definition FileStorage_init_load ::
  "env \<Rightarrow> file_storage \<Rightarrow> fworld \<Rightarrow> (unit, file_storage, fworld) outcome" where
  "FileStorage_init_load env st w =
     (case readFile env w (f_filepath st) of
        Inl e \<Rightarrow>
          if e = ''ENOENT'' then (Inr (), st\<lparr>f_map := [], f_dirty := True\<rparr>, w)
          else (Inl (MediumError e), st, w)
      | Inr Blank \<Rightarrow> (Inr (), st\<lparr>f_map := [], f_dirty := True\<rparr>, w)
      | Inr Invalid \<Rightarrow> (Inr (), st\<lparr>f_map := [], f_dirty := True\<rparr>, w)
      | Inr NotArray \<Rightarrow> (Inr (), st\<lparr>f_map := [], f_dirty := True\<rparr>, w)
      | Inr (Array layout parsed) \<Rightarrow>
          (Inr (), st\<lparr>f_map := load_items parsed [], f_dirty := False\<rparr>, w))"

definition FileStorage_init ::
  "env \<Rightarrow> file_storage \<Rightarrow> fworld \<Rightarrow> (unit, file_storage, fworld) outcome" where
  "FileStorage_init env st0 w =
     (case FileStorage_init_begin st0 of
        None \<Rightarrow> (Inr (), st0, w)
      | Some st \<Rightarrow>
          (case mkdir_err env of
             Some e \<Rightarrow> (Inl (MediumError e), st, w)
           | None \<Rightarrow> FileStorage_init_load env st w))"

text \<open>
  \<^verbatim>\<open>_writeToDisk\<close>. The array is the values of the map under the stable
  \<^verbatim>\<open>Array.prototype.sort\<close> with the comparator
  \<^verbatim>\<open>a.createdAt.localeCompare(b.createdAt)\<close>; on the fixed-width ISO-8601 strings of
  \<^verbatim>\<open>toISOString\<close> that comparison is the lexicographic order of the characters.
\<close>

definition tmpPath :: "env \<Rightarrow> path \<Rightarrow> path" where
  "tmpPath env filepath =
     path_join (dirname filepath) (basename filepath @ ''.tmp-'' @ stamp env)"

definition FileStorage_writeToDisk ::
  "env \<Rightarrow> file_storage \<Rightarrow> fworld \<Rightarrow> (unit, file_storage, fworld) outcome" where
  "FileStorage_writeToDisk env st w =
     (let tmp = tmpPath env (f_filepath st);
          arr = sort_key createdAt (map_values (f_map st));
          json = Array (f_pretty st) (map Item arr)
      in case writeFile env w tmp json of
           Inl err \<Rightarrow> (Inl (MediumError err), st, rm_ignore env (writeFile_failed env w tmp) tmp)
         | Inr w1 \<Rightarrow>
           (case rename env w1 tmp (f_filepath st) of
              Inl err \<Rightarrow> (Inl (MediumError err), st, rm_ignore env w1 tmp)
            | Inr w2 \<Rightarrow> (Inr (), st\<lparr>f_dirty := False\<rparr>, w2)))"

definition FileStorage_close ::
  "env \<Rightarrow> file_storage \<Rightarrow> fworld \<Rightarrow> (unit, file_storage, fworld) outcome" where
  "FileStorage_close env st w =
     (if \<not> f_inited st then (Inr (), st, w)
      else if f_mode st = ''onClose'' \<and> f_dirty st then
        (case FileStorage_writeToDisk env st w of
           (Inl err, st1, w1) \<Rightarrow> (Inl err, st1, w1)
         | (Inr u, st1, w1) \<Rightarrow> (Inr (), st1\<lparr>f_inited := False\<rparr>, w1))
      else (Inr (), st\<lparr>f_inited := False\<rparr>, w))"

definition FileStorage_flush ::
  "env \<Rightarrow> file_storage \<Rightarrow> fworld \<Rightarrow> (unit, file_storage, fworld) outcome" where
  "FileStorage_flush env st w = FileStorage_writeToDisk env st w"

text \<open>
  \<^verbatim>\<open>_ensureInit\<close>. The guard \<^verbatim>\<open>if (!this._map)\<close> never fires: the constructor and
  \<^verbatim>\<open>init\<close> always leave a \<^verbatim>\<open>Map\<close> object in \<^verbatim>\<open>_map\<close>, so the map is kept as it is.
\<close>

definition FileStorage_ensureInit :: "file_storage \<Rightarrow> file_storage" where
  "FileStorage_ensureInit st =
     (if \<not> f_inited st then st\<lparr>f_inited := True, f_dirty := True\<rparr> else st)"

text \<open>
  The common tail of the three mutators:
  \<^verbatim>\<open>if (this.mode === "immediate") await this._writeToDisk(); return r;\<close>
\<close>

definition write_if_immediate ::
  "env \<Rightarrow> 'a \<Rightarrow> file_storage \<Rightarrow> fworld \<Rightarrow> ('a, file_storage, fworld) outcome" where
  "write_if_immediate env r st w =
     (if f_mode st = ''immediate'' then
        (case FileStorage_writeToDisk env st w of
           (Inl err, st1, w1) \<Rightarrow> (Inl err, st1, w1)
         | (Inr u, st1, w1) \<Rightarrow> (Inr r, st1, w1))
      else (Inr r, st, w))"

definition FileStorage_addTodo ::
  "env \<Rightarrow> todoData option \<Rightarrow> file_storage \<Rightarrow> fworld \<Rightarrow> (todo, file_storage, fworld) outcome" where
  "FileStorage_addTodo env data st0 w =
     (let st = FileStorage_ensureInit st0 in
      case data of
        None \<Rightarrow> (Inl ValidationError, st, w)
      | Some d \<Rightarrow>
        (case d_title d of
           JStr t \<Rightarrow>
             if trim t = [] then (Inl ValidationError, st, w)
             else
               let t_new = \<lparr>id' = uuid env, title = t,
                            description = (case d_description d of JStr s \<Rightarrow> s | _ \<Rightarrow> []),
                            done' = truthy (d_done d),
                            createdAt = now env, updatedAt = now env\<rparr>
               in write_if_immediate env t_new
                    (st\<lparr>f_map := map_set (id' t_new) t_new (f_map st), f_dirty := True\<rparr>) w
         | _ \<Rightarrow> (Inl ValidationError, st, w)))"

definition FileStorage_getAllTodos ::
  "int option \<Rightarrow> int \<Rightarrow> file_storage \<Rightarrow> fworld \<Rightarrow> (todo list, file_storage, fworld) outcome" where
  "FileStorage_getAllTodos limit offset st0 w =
     (let st = FileStorage_ensureInit st0;
          items = sort_key createdAt (map_values (f_map st))
      in case limit of
           None \<Rightarrow> (Inr items, st, w)
         | Some l \<Rightarrow> (Inr (slice items offset (offset + l)), st, w))"

definition FileStorage_getTodoById ::
  "string \<Rightarrow> file_storage \<Rightarrow> fworld \<Rightarrow> (todo option, file_storage, fworld) outcome" where
  "FileStorage_getTodoById i st0 w =
     (let st = FileStorage_ensureInit st0 in
      if \<not> map_has i (f_map st) then (Inr None, st, w)
      else (Inr (map_get i (f_map st)), st, w))"

definition FileStorage_updateTodo ::
  "env \<Rightarrow> string \<Rightarrow> patch \<Rightarrow> file_storage \<Rightarrow> fworld \<Rightarrow>
     (todo option, file_storage, fworld) outcome" where
  "FileStorage_updateTodo env i p st0 w =
     (let st = FileStorage_ensureInit st0 in
      case map_get i (f_map st) of
        None \<Rightarrow> (Inr None, st, w)
      | Some existing \<Rightarrow>
          let updated = existing\<lparr>
                title := (case p_title p of JStr s \<Rightarrow> s | _ \<Rightarrow> title existing),
                description := (if p_description p \<noteq> JUndefined then js_String (p_description p)
                                else description existing),
                done' := (case p_done p of JBool b \<Rightarrow> b | _ \<Rightarrow> done' existing),
                updatedAt := now env\<rparr>
          in write_if_immediate env (Some updated)
               (st\<lparr>f_map := map_set i updated (f_map st), f_dirty := True\<rparr>) w)"

definition FileStorage_deleteTodo ::
  "env \<Rightarrow> string \<Rightarrow> file_storage \<Rightarrow> fworld \<Rightarrow> (bool, file_storage, fworld) outcome" where
  "FileStorage_deleteTodo env i st0 w =
     (let st = FileStorage_ensureInit st0 in
      if \<not> map_has i (f_map st) then (Inr False, st, w)
      else write_if_immediate env True
             (st\<lparr>f_map := map_delete i (f_map st), f_dirty := True\<rparr>) w)"

section \<open>The Relational Backend\<close>

text \<open>
  The embedded engine is not part of the repository; the backend talks to it through the
  SQL statements below. A database file is modelled by the rows of its table
  \<^verbatim>\<open>todos\<close> in rowid order (the order of insertion), with the columns of the schema
  embedded in \<^verbatim>\<open>init\<close>: \<^verbatim>\<open>id TEXT PRIMARY KEY\<close>, \<^verbatim>\<open>title TEXT NOT NULL\<close>,
  \<^verbatim>\<open>description TEXT\<close> (nullable), \<^verbatim>\<open>done INTEGER\<close>, \<^verbatim>\<open>created_at\<close>, \<^verbatim>\<open>updated_at\<close>.
\<close>

record row =
  col_id :: string
  col_title :: string
  col_description :: "string option"
  col_done :: int
  created_at :: string
  updated_at :: string

type_synonym sworld = "path \<Rightarrow> row list option"

record sqlite_options =
  so_filepath :: "path option"
  so_schemaPath :: "path option"
  so_busyTimeout :: "nat option"

record sqlite_storage =
  s_filepath :: path
  s_schemaPath :: path
  s_busyTimeout :: nat
  s_db :: "path option"
  s_inited :: bool

definition SqliteFileStorage :: "sqlite_options \<Rightarrow> sqlite_storage" where
  "SqliteFileStorage opts =
     \<lparr>s_filepath = (case so_filepath opts of None \<Rightarrow> path_join ''db'' ''todo.db'' | Some p \<Rightarrow> p),
      s_schemaPath =
        (case so_schemaPath opts of None \<Rightarrow> path_join ''db'' ''schema.sql'' | Some p \<Rightarrow> p),
      s_busyTimeout =
        (case so_busyTimeout opts of None \<Rightarrow> 5000 | Some n \<Rightarrow> if n = 0 then 5000 else n),
      s_db = None, s_inited = False\<rparr>"

text \<open>
  \<^verbatim>\<open>init\<close>: create the directory, open (creating) the database file, run the pragmas and
  the schema (\<^verbatim>\<open>CREATE TABLE IF NOT EXISTS\<close>: a new file gets the empty table, an
  existing one keeps its rows), then set \<^verbatim>\<open>_inited\<close>.
\<close>

definition SqliteFileStorage_init ::
  "env \<Rightarrow> sqlite_storage \<Rightarrow> sworld \<Rightarrow> (unit, sqlite_storage, sworld) outcome" where
  "SqliteFileStorage_init env st w =
     (if s_inited st then (Inr (), st, w)
      else
        case mkdir_err env of
          Some e \<Rightarrow> (Inl (MediumError e), st, w)
        | None \<Rightarrow>
          (case open_err env of
             Some e \<Rightarrow> (Inl (MediumError e), st, w)
           | None \<Rightarrow>
             let w1 = (case w (s_filepath st) of
                         None \<Rightarrow> w(s_filepath st \<mapsto> [])
                       | Some rows \<Rightarrow> w);
                 st1 = st\<lparr>s_db := Some (s_filepath st)\<rparr>
             in (case exec_err env of
                   Some e \<Rightarrow> (Inl (MediumError e), st1, w1)
                 | None \<Rightarrow> (Inr (), st1\<lparr>s_inited := True\<rparr>, w1))))"

definition SqliteFileStorage_close ::
  "env \<Rightarrow> sqlite_storage \<Rightarrow> sworld \<Rightarrow> (unit, sqlite_storage, sworld) outcome" where
  "SqliteFileStorage_close env st w =
     (case s_db st of
        None \<Rightarrow> (Inr (), st, w)
      | Some h \<Rightarrow>
        (case close_err env of
           Some e \<Rightarrow> (Inl (MediumError e), st, w)
         | None \<Rightarrow> (Inr (), st\<lparr>s_db := None, s_inited := False\<rparr>, w)))"

text \<open>
  The statements. Each reads the table through the open handle; a call on a null handle
  is a \<^verbatim>\<open>TypeError\<close>, a failure reported by the engine a medium error.
\<close>

definition table :: "sqlite_storage \<Rightarrow> sworld \<Rightarrow> error + path \<times> row list" where
  "table st w =
     (case s_db st of
        None \<Rightarrow> Inl TypeError
      | Some h \<Rightarrow>
        (case w h of None \<Rightarrow> Inl (MediumError ''SQLITE_ERROR'') | Some rows \<Rightarrow> Inr (h, rows)))"

text \<open>\<^verbatim>\<open>INSERT INTO todos (...) VALUES (?, ?, ?, ?, ?, ?)\<close>; the primary key is unique.\<close>

definition sql_insert :: "env \<Rightarrow> sqlite_storage \<Rightarrow> sworld \<Rightarrow> row \<Rightarrow> error + sworld" where
  "sql_insert env st w r =
     (case table st w of
        Inl e \<Rightarrow> Inl e
      | Inr (h, rows) \<Rightarrow>
        (case run_err env of
           Some e \<Rightarrow> Inl (MediumError e)
         | None \<Rightarrow>
           if col_id r \<in> set (map col_id rows) then Inl (MediumError ''SQLITE_CONSTRAINT'')
           else Inr (w(h \<mapsto> rows @ [r]))))"

text \<open>
  \<^verbatim>\<open>LIMIT ? OFFSET ?\<close>: a negative limit means no limit, a negative offset is zero.
\<close>

definition sql_limit :: "int \<Rightarrow> int \<Rightarrow> 'a list \<Rightarrow> 'a list" where
  "sql_limit l off xs = (let ys = drop (nat off) xs in if l < 0 then ys else take (nat l) ys)"

text \<open>
  \<^verbatim>\<open>SELECT ... FROM todos ORDER BY created_at ASC\<close>, with \<^verbatim>\<open>LIMIT ? OFFSET ?\<close> when a
  limit is given. Rows with equal \<^verbatim>\<open>created_at\<close> come in rowid order.
\<close>

definition sql_select_all ::
  "env \<Rightarrow> sqlite_storage \<Rightarrow> sworld \<Rightarrow> (int \<times> int) option \<Rightarrow> error + row list" where
  "sql_select_all env st w params =
     (case table st w of
        Inl e \<Rightarrow> Inl e
      | Inr (h, rows) \<Rightarrow>
        (case all_err env of
           Some e \<Rightarrow> Inl (MediumError e)
         | None \<Rightarrow>
           (case params of
              None \<Rightarrow> Inr (sort_key created_at rows)
            | Some (l, off) \<Rightarrow> Inr (sql_limit l off (sort_key created_at rows)))))"

text \<open>\<^verbatim>\<open>SELECT ... FROM todos WHERE id = ?\<close>\<close>

definition sql_select_by_id ::
  "env \<Rightarrow> sqlite_storage \<Rightarrow> sworld \<Rightarrow> string \<Rightarrow> error + row option" where
  "sql_select_by_id env st w i =
     (case table st w of
        Inl e \<Rightarrow> Inl e
      | Inr (h, rows) \<Rightarrow>
        (case get_err env of
           Some e \<Rightarrow> Inl (MediumError e)
         | None \<Rightarrow> Inr (find (\<lambda>r. col_id r = i) rows)))"

text \<open>
  \<^verbatim>\<open>UPDATE todos SET title = ?, description = ?, done = ?, updated_at = ? WHERE id = ?\<close>
\<close>

definition sql_update ::
  "env \<Rightarrow> sqlite_storage \<Rightarrow> sworld \<Rightarrow> string \<Rightarrow> string \<Rightarrow> int \<Rightarrow> string \<Rightarrow> string \<Rightarrow>
     error + sworld" where
  "sql_update env st w t d dn upd i =
     (case table st w of
        Inl e \<Rightarrow> Inl e
      | Inr (h, rows) \<Rightarrow>
        (case run_err env of
           Some e \<Rightarrow> Inl (MediumError e)
         | None \<Rightarrow>
           Inr (w(h \<mapsto> map (\<lambda>r. if col_id r = i
                                  then r\<lparr>col_title := t, col_description := Some d,
                                         col_done := dn, updated_at := upd\<rparr>
                                  else r) rows))))"

text \<open>\<^verbatim>\<open>DELETE FROM todos WHERE id = ?\<close>, with the number of rows changed.\<close>

definition sql_delete ::
  "env \<Rightarrow> sqlite_storage \<Rightarrow> sworld \<Rightarrow> string \<Rightarrow> error + nat \<times> sworld" where
  "sql_delete env st w i =
     (case table st w of
        Inl e \<Rightarrow> Inl e
      | Inr (h, rows) \<Rightarrow>
        (case run_err env of
           Some e \<Rightarrow> Inl (MediumError e)
         | None \<Rightarrow>
           Inr (length (filter (\<lambda>r. col_id r = i) rows),
                w(h \<mapsto> filter (\<lambda>r. col_id r \<noteq> i) rows))))"

text \<open>
  \<^verbatim>\<open>_rowToTodo\<close>; \<^verbatim>\<open>row.description || ""\<close> turns NULL and the empty string into the
  empty string, \<^verbatim>\<open>row.done === 1 || row.done === true\<close> reads the integer column.
\<close>

definition rowToTodo :: "row \<Rightarrow> todo" where
  "rowToTodo r =
     \<lparr>id' = col_id r, title = col_title r,
      description = (case col_description r of None \<Rightarrow> [] | Some s \<Rightarrow> if s = [] then [] else s),
      done' = (col_done r = 1),
      createdAt = created_at r, updatedAt = updated_at r\<rparr>"

definition SqliteFileStorage_addTodo ::
  "env \<Rightarrow> todoData option \<Rightarrow> sqlite_storage \<Rightarrow> sworld \<Rightarrow>
     (todo, sqlite_storage, sworld) outcome" where
  "SqliteFileStorage_addTodo env data st w =
     (if \<not> s_inited st then (Inl NotInitialized, st, w)
      else
        case data of
          None \<Rightarrow> (Inl ValidationError, st, w)
        | Some d \<Rightarrow>
          (case d_title d of
             JStr t \<Rightarrow>
               if trim t = [] then (Inl ValidationError, st, w)
               else
                 let t_new = \<lparr>id' = uuid env, title = t,
                              description = (case d_description d of JStr s \<Rightarrow> s | _ \<Rightarrow> []),
                              done' = truthy (d_done d),
                              createdAt = now env, updatedAt = now env\<rparr>;
                     params = \<lparr>col_id = id' t_new, col_title = title t_new,
                               col_description = Some (description t_new),
                               col_done = (if done' t_new then 1 else 0),
                               created_at = createdAt t_new, updated_at = updatedAt t_new\<rparr>
                 in (case sql_insert env st w params of
                       Inl e \<Rightarrow> (Inl e, st, w)
                     | Inr w1 \<Rightarrow> (Inr t_new, st, w1))
           | _ \<Rightarrow> (Inl ValidationError, st, w)))"

definition SqliteFileStorage_getAllTodos ::
  "env \<Rightarrow> int option \<Rightarrow> int \<Rightarrow> sqlite_storage \<Rightarrow> sworld \<Rightarrow>
     (todo list, sqlite_storage, sworld) outcome" where
  "SqliteFileStorage_getAllTodos env limit offset st w =
     (if \<not> s_inited st then (Inl NotInitialized, st, w)
      else
        case sql_select_all env st w (case limit of None \<Rightarrow> None | Some l \<Rightarrow> Some (l, offset)) of
          Inl e \<Rightarrow> (Inl e, st, w)
        | Inr rows \<Rightarrow> (Inr (map rowToTodo rows), st, w))"

definition SqliteFileStorage_getTodoById ::
  "env \<Rightarrow> string \<Rightarrow> sqlite_storage \<Rightarrow> sworld \<Rightarrow>
     (todo option, sqlite_storage, sworld) outcome" where
  "SqliteFileStorage_getTodoById env i st w =
     (if \<not> s_inited st then (Inl NotInitialized, st, w)
      else
        case sql_select_by_id env st w i of
          Inl e \<Rightarrow> (Inl e, st, w)
        | Inr None \<Rightarrow> (Inr None, st, w)
        | Inr (Some r) \<Rightarrow> (Inr (Some (rowToTodo r)), st, w))"

definition SqliteFileStorage_updateTodo ::
  "env \<Rightarrow> string \<Rightarrow> patch \<Rightarrow> sqlite_storage \<Rightarrow> sworld \<Rightarrow>
     (todo option, sqlite_storage, sworld) outcome" where
  "SqliteFileStorage_updateTodo env i p st w =
     (if \<not> s_inited st then (Inl NotInitialized, st, w)
      else
        case SqliteFileStorage_getTodoById env i st w of
          (Inl e, st1, w1) \<Rightarrow> (Inl e, st1, w1)
        | (Inr None, st1, w1) \<Rightarrow> (Inr None, st1, w1)
        | (Inr (Some existing), st1, w1) \<Rightarrow>
            let updated = existing\<lparr>
                  title := (case p_title p of JStr s \<Rightarrow> s | _ \<Rightarrow> title existing),
                  description := (if p_description p \<noteq> JUndefined
                                  then js_String (p_description p)
                                  else description existing),
                  done' := (case p_done p of JBool b \<Rightarrow> b | _ \<Rightarrow> done' existing),
                  updatedAt := now env\<rparr>
            in (case sql_update env st1 w1 (title updated) (description updated)
                       (if done' updated then 1 else 0) (updatedAt updated) i of
                  Inl e \<Rightarrow> (Inl e, st1, w1)
                | Inr w2 \<Rightarrow> (Inr (Some updated), st1, w2)))"

definition SqliteFileStorage_deleteTodo ::
  "env \<Rightarrow> string \<Rightarrow> sqlite_storage \<Rightarrow> sworld \<Rightarrow> (bool, sqlite_storage, sworld) outcome" where
  "SqliteFileStorage_deleteTodo env i st w =
     (if \<not> s_inited st then (Inl NotInitialized, st, w)
      else
        case sql_delete env st w i of
          Inl e \<Rightarrow> (Inl e, st, w)
        | Inr (changes, w1) \<Rightarrow> (Inr (changes > 0), st, w1))"

section \<open>The storage contract as call sequences\<close>

text \<open>
  The class \<^verbatim>\<open>Database\<close> forwards each of the seven operations to the configured
  storage. A call is one of them with its arguments; a reply is what the caller sees:
  nothing, a Todo, a list of Todos, \<^verbatim>\<open>null\<close> or a boolean, or the error raised.
\<close>

datatype call =
    Init
  | Close
  | AddTodo "todoData option"
  | GetAllTodos "int option" int
  | GetTodoById string
  | UpdateTodo string patch
  | DeleteTodo string

datatype reply = RVoid | RTodo todo | RTodos "todo list" | RNull | RBool bool

definition reply_with :: "('a \<Rightarrow> reply) \<Rightarrow> ('a, 's, 'w) outcome \<Rightarrow> (reply, 's, 'w) outcome" where
  "reply_with f out =
     (case out of (Inl e, st, w) \<Rightarrow> (Inl e, st, w) | (Inr a, st, w) \<Rightarrow> (Inr (f a), st, w))"

definition todo_or_null :: "todo option \<Rightarrow> reply" where
  "todo_or_null r = (case r of None \<Rightarrow> RNull | Some t \<Rightarrow> RTodo t)"

fun Database_FileStorage ::
  "env \<Rightarrow> call \<Rightarrow> file_storage \<Rightarrow> fworld \<Rightarrow> (reply, file_storage, fworld) outcome" where
  "Database_FileStorage env Init st w = reply_with (\<lambda>u. RVoid) (FileStorage_init env st w)"
| "Database_FileStorage env Close st w = reply_with (\<lambda>u. RVoid) (FileStorage_close env st w)"
| "Database_FileStorage env (AddTodo d) st w = reply_with RTodo (FileStorage_addTodo env d st w)"
| "Database_FileStorage env (GetAllTodos l off) st w =
     reply_with RTodos (FileStorage_getAllTodos l off st w)"
| "Database_FileStorage env (GetTodoById i) st w =
     reply_with todo_or_null (FileStorage_getTodoById i st w)"
| "Database_FileStorage env (UpdateTodo i p) st w =
     reply_with todo_or_null (FileStorage_updateTodo env i p st w)"
| "Database_FileStorage env (DeleteTodo i) st w =
     reply_with RBool (FileStorage_deleteTodo env i st w)"

fun Database_SqliteFileStorage ::
  "env \<Rightarrow> call \<Rightarrow> sqlite_storage \<Rightarrow> sworld \<Rightarrow> (reply, sqlite_storage, sworld) outcome" where
  "Database_SqliteFileStorage env Init st w =
     reply_with (\<lambda>u. RVoid) (SqliteFileStorage_init env st w)"
| "Database_SqliteFileStorage env Close st w =
     reply_with (\<lambda>u. RVoid) (SqliteFileStorage_close env st w)"
| "Database_SqliteFileStorage env (AddTodo d) st w =
     reply_with RTodo (SqliteFileStorage_addTodo env d st w)"
| "Database_SqliteFileStorage env (GetAllTodos l off) st w =
     reply_with RTodos (SqliteFileStorage_getAllTodos env l off st w)"
| "Database_SqliteFileStorage env (GetTodoById i) st w =
     reply_with todo_or_null (SqliteFileStorage_getTodoById env i st w)"
| "Database_SqliteFileStorage env (UpdateTodo i p) st w =
     reply_with todo_or_null (SqliteFileStorage_updateTodo env i p st w)"
| "Database_SqliteFileStorage env (DeleteTodo i) st w =
     reply_with RBool (SqliteFileStorage_deleteTodo env i st w)"

text \<open>
  A sequence of calls, each with what the environment does during it. The caller goes on
  after an error, so every call is made and every reply recorded.
\<close>

fun run_file ::
  "(env \<times> call) list \<Rightarrow> file_storage \<Rightarrow> fworld \<Rightarrow>
     (error + reply) list \<times> file_storage \<times> fworld" where
  "run_file [] st w = ([], st, w)"
| "run_file ((env, c) # cs) st w =
     (case Database_FileStorage env c st w of
        (r, st1, w1) \<Rightarrow> (case run_file cs st1 w1 of (rs, st2, w2) \<Rightarrow> (r # rs, st2, w2)))"

fun run_sqlite ::
  "(env \<times> call) list \<Rightarrow> sqlite_storage \<Rightarrow> sworld \<Rightarrow>
     (error + reply) list \<times> sqlite_storage \<times> sworld" where
  "run_sqlite [] st w = ([], st, w)"
| "run_sqlite ((env, c) # cs) st w =
     (case Database_SqliteFileStorage env c st w of
        (r, st1, w1) \<Rightarrow> (case run_sqlite cs st1 w1 of (rs, st2, w2) \<Rightarrow> (r # rs, st2, w2)))"

section \<open>Vocabulary of the properties\<close>

text \<open>The physical write fails with error \<open>e\<close>: at \<^verbatim>\<open>writeFile\<close>, or else at \<^verbatim>\<open>rename\<close>.\<close>

definition write_fails :: "env \<Rightarrow> string \<Rightarrow> bool" where
  "write_fails env e =
     (case write_err env of
        Some (e', leftover) \<Rightarrow> e' = e
      | None \<Rightarrow> rename_err env = Some e)"

definition write_succeeds :: "env \<Rightarrow> bool" where
  "write_succeeds env = (write_err env = None \<and> rename_err env = None)"

text \<open>A string is a concatenation of sequences taken from a list.\<close>

inductive concat_of :: "string list \<Rightarrow> string \<Rightarrow> bool" for qs where
  concat_of_Nil: "concat_of qs []"
| concat_of_Cons: "q \<in> set qs \<Longrightarrow> concat_of qs s \<Longrightarrow> concat_of qs (q @ s)"

text \<open>The title is missing, not a string, or blank.\<close>

definition title_rejected :: "todoData option \<Rightarrow> bool" where
  "title_rejected data =
     (case data of
        None \<Rightarrow> True
      | Some d \<Rightarrow> (case d_title d of JStr s \<Rightarrow> blank s | _ \<Rightarrow> True))"

text \<open>The slice \<open>[O, O + L)\<close> of a list.\<close>

definition slice_range :: "nat \<Rightarrow> nat \<Rightarrow> 'a list \<Rightarrow> 'a list" where
  "slice_range off l xs = take l (drop off xs)"

text \<open>The identifiers held by a File Backend instance and by a table.\<close>

definition file_ids :: "file_storage \<Rightarrow> string set" where
  "file_ids st = fst ` set (f_map st)"

definition row_ids :: "row list \<Rightarrow> string set" where
  "row_ids rows = col_id ` set rows"

section \<open>Sample data\<close>

definition ok_env :: "string \<Rightarrow> string \<Rightarrow> env" where
  "ok_env n u =
     \<lparr>now = n, uuid = u, stamp = ''1700000000000-3e8'',
      mkdir_err = None, read_err = None, write_err = None, rename_err = None, rm_err = None,
      open_err = None, exec_err = None, run_err = None, get_err = None, all_err = None,
      close_err = None\<rparr>"

definition sample_path :: path where
  "sample_path = path_join ''db'' ''todo.json''"

definition sample_db_path :: path where
  "sample_db_path = path_join ''db'' ''todo.db''"

definition todo_one :: todo where
  "todo_one = \<lparr>id' = ''u1'', title = ''One'', description = ''first'', done' = False,
     createdAt = ''2024-05-01T10:00:00.001Z'', updatedAt = ''2024-05-01T10:00:00.001Z''\<rparr>"

definition todo_two :: todo where
  "todo_two = \<lparr>id' = ''u2'', title = ''Two'', description = [], done' = False,
     createdAt = ''2024-05-01T10:00:00.002Z'', updatedAt = ''2024-05-01T10:00:00.002Z''\<rparr>"

definition row_one :: row where
  "row_one = \<lparr>col_id = ''u1'', col_title = ''One'', col_description = Some ''first'',
     col_done = 0, created_at = ''2024-05-01T10:00:00.001Z'',
     updated_at = ''2024-05-01T10:00:00.001Z''\<rparr>"

definition row_two :: row where
  "row_two = \<lparr>col_id = ''u2'', col_title = ''Two'', col_description = Some [],
     col_done = 0, created_at = ''2024-05-01T10:00:00.002Z'',
     updated_at = ''2024-05-01T10:00:00.002Z''\<rparr>"

text \<open>A File Backend instance holding the two sample records, the later one first.\<close>

definition sample_file :: "string \<Rightarrow> file_storage" where
  "sample_file m =
     \<lparr>f_filepath = sample_path, f_pretty = True, f_mode = m,
      f_map = [(''u2'', todo_two), (''u1'', todo_one)], f_inited = True, f_dirty = True\<rparr>"

text \<open>An open Relational Backend instance and a database holding the two sample rows.\<close>

definition sample_sqlite :: sqlite_storage where
  "sample_sqlite =
     \<lparr>s_filepath = sample_db_path, s_schemaPath = path_join ''db'' ''schema.sql'',
      s_busyTimeout = 5000, s_db = Some sample_db_path, s_inited = True\<rparr>"

definition sample_db :: sworld where
  "sample_db = Map.empty(sample_db_path \<mapsto> [row_two, row_one])"

definition data_three :: todoData where
  "data_three = \<lparr>d_title = JStr ''Three'', d_description = JUndefined, d_done = JUndefined\<rparr>"

definition patch_done :: patch where
  "patch_done = \<lparr>p_title = JUndefined, p_description = JUndefined, p_done = JBool True\<rparr>"

definition patch_empty_title :: patch where
  "patch_empty_title = \<lparr>p_title = JStr [], p_description = JUndefined, p_done = JUndefined\<rparr>"

text \<open>
  The record that \<^verbatim>\<open>addTodo\<close> builds from its argument, and the merge of a patch over
  an existing record in \<^verbatim>\<open>updateTodo\<close>; the two backends build them alike.
\<close>

definition new_todo :: "env \<Rightarrow> todoData \<Rightarrow> todo" where
  "new_todo env d =
     \<lparr>id' = uuid env,
      title = (case d_title d of JStr t \<Rightarrow> t | _ \<Rightarrow> []),
      description = (case d_description d of JStr s \<Rightarrow> s | _ \<Rightarrow> []),
      done' = truthy (d_done d),
      createdAt = now env, updatedAt = now env\<rparr>"

definition merged :: "env \<Rightarrow> patch \<Rightarrow> todo \<Rightarrow> todo" where
  "merged env p existing =
     existing\<lparr>
       title := (case p_title p of JStr s \<Rightarrow> s | _ \<Rightarrow> title existing),
       description := (if p_description p \<noteq> JUndefined then js_String (p_description p)
                       else description existing),
       done' := (case p_done p of JBool b \<Rightarrow> b | _ \<Rightarrow> done' existing),
       updatedAt := now env\<rparr>"

text \<open>
  The parameters of the \<^verbatim>\<open>INSERT\<close> built from a record, and the columns that the
  \<^verbatim>\<open>UPDATE\<close> sets from one.
\<close>

definition todo_row :: "todo \<Rightarrow> row" where
  "todo_row t = \<lparr>col_id = id' t, col_title = title t, col_description = Some (description t),
     col_done = (if done' t then 1 else 0), created_at = createdAt t, updated_at = updatedAt t\<rparr>"

definition update_row :: "todo \<Rightarrow> row \<Rightarrow> row" where
  "update_row t r = r\<lparr>col_title := title t, col_description := Some (description t),
      col_done := (if done' t then 1 else 0), updated_at := updatedAt t\<rparr>"

text \<open>What \<^verbatim>\<open>getAllTodos()\<close> returns on each backend (the empty list if it raises).\<close>

definition file_listing :: "file_storage \<Rightarrow> fworld \<Rightarrow> todo list" where
  "file_listing st w =
     (case fst (FileStorage_getAllTodos None 0 st w) of Inr ts \<Rightarrow> ts | Inl e \<Rightarrow> [])"

definition sqlite_listing :: "env \<Rightarrow> sqlite_storage \<Rightarrow> sworld \<Rightarrow> todo list" where
  "sqlite_listing env st w =
     (case fst (SqliteFileStorage_getAllTodos env None 0 st w) of Inr ts \<Rightarrow> ts | Inl e \<Rightarrow> [])"

text \<open>The instances that the constructors build from the default options.\<close>

definition default_options :: options where
  "default_options = \<lparr>o_filepath = None, o_pretty = None, o_mode = None\<rparr>"

definition fresh_file :: file_storage where
  "fresh_file =
     \<lparr>f_filepath = path_join ''db'' ''todo.json'', f_pretty = True, f_mode = ''onClose'',
      f_map = [], f_inited = False, f_dirty = False\<rparr>"

definition fresh_sqlite :: sqlite_storage where
  "fresh_sqlite =
     \<lparr>s_filepath = path_join ''db'' ''todo.db'', s_schemaPath = path_join ''db'' ''schema.sql'',
      s_busyTimeout = 5000, s_db = None, s_inited = False\<rparr>"

definition env_three :: env where
  "env_three = ok_env ''2024-05-01T10:00:00.003Z'' ''u3''"

definition todo_three :: todo where
  "todo_three = \<lparr>id' = ''u3'', title = ''Three'', description = [], done' = False,
     createdAt = ''2024-05-01T10:00:00.003Z'', updatedAt = ''2024-05-01T10:00:00.003Z''\<rparr>"

definition data_blank :: todoData where
  "data_blank = \<lparr>d_title = JStr [CHR 0x20, CHR 0x09], d_description = JStr ''x'',
     d_done = JBool True\<rparr>"

text \<open>A title that is a single no-break space (U+00A0), and one of U+3000 and U+FEFF.\<close>

definition data_nbsp :: todoData where
  "data_nbsp = \<lparr>d_title = JStr [CHR 0xC2, CHR 0xA0], d_description = JUndefined,
     d_done = JUndefined\<rparr>"

definition data_wide_blank :: todoData where
  "data_wide_blank = \<lparr>d_title = JStr [CHR 0xE3, CHR 0x80, CHR 0x80, CHR 0xEF, CHR 0xBB, CHR 0xBF],
     d_description = JUndefined, d_done = JUndefined\<rparr>"

section \<open>Titles along call sequences\<close>

definition titles_ok :: "todo list \<Rightarrow> bool" where
  "titles_ok ts = list_all (\<lambda>t. \<not> blank (title t)) ts"

text \<open>A patch carries no blank title: its title is not a string, or a non-blank one.\<close>

definition patch_title_ok :: "patch \<Rightarrow> bool" where
  "patch_title_ok p = (case p_title p of JStr s \<Rightarrow> \<not> blank s | _ \<Rightarrow> True)"

text \<open>
  The calls of an interleaving of \<^verbatim>\<open>addTodo\<close>, \<^verbatim>\<open>updateTodo\<close> and \<^verbatim>\<open>deleteTodo\<close> (with
  reads in between) whose patches carry no blank title.
\<close>

fun mutation_ok :: "call \<Rightarrow> bool" where
  "mutation_ok Init = False"
| "mutation_ok Close = False"
| "mutation_ok (AddTodo d) = True"
| "mutation_ok (GetAllTodos l off) = True"
| "mutation_ok (GetTodoById i) = True"
| "mutation_ok (UpdateTodo i p) = patch_title_ok p"
| "mutation_ok (DeleteTodo i) = True"

definition calls_ok :: "(env \<times> call) list \<Rightarrow> bool" where
  "calls_ok cs = list_all (\<lambda>ec. mutation_ok (snd ec)) cs"

fun reply_titles_ok :: "error + reply \<Rightarrow> bool" where
  "reply_titles_ok (Inr (RTodos ts)) = titles_ok ts"
| "reply_titles_ok (Inr (RTodo t)) = (\<not> blank (title t))"
| "reply_titles_ok r = True"

text \<open>The rows of the database file of a Relational Backend instance.\<close>

definition stored_rows :: "sqlite_storage \<Rightarrow> sworld \<Rightarrow> row list" where
  "stored_rows st w = (case w (s_filepath st) of None \<Rightarrow> [] | Some rows \<Rightarrow> rows)"

text \<open>The handle of an instance, when open, is on its own database file.\<close>

definition handle_ok :: "sqlite_storage \<Rightarrow> bool" where
  "handle_ok st = (case s_db st of None \<Rightarrow> True | Some h \<Rightarrow> h = s_filepath st)"

definition todo_untitled :: todo where
  "todo_untitled = \<lparr>id' = ''u3'', title = [], description = [], done' = False,
     createdAt = ''2024-05-01T10:00:00.003Z'', updatedAt = ''2024-05-01T10:00:00.003Z''\<rparr>"

section \<open>The file and the in-memory map\<close>

text \<open>Every entry of the map is filed under the identifier of its record, once.\<close>

definition keys_ok :: "(string \<times> todo) list \<Rightarrow> bool" where
  "keys_ok m = (distinct (map fst m) \<and> list_all (\<lambda>kt. id' (snd kt) = fst kt) m)"

text \<open>The map that \<^verbatim>\<open>init\<close> builds from the file at a path (when the read succeeds).\<close>

definition disk_map :: "fworld \<Rightarrow> path \<Rightarrow> (string \<times> todo) list" where
  "disk_map w p = (case w p of Some (Array layout items) \<Rightarrow> load_items items [] | _ \<Rightarrow> [])"

text \<open>The file lists the records of the instance: reloading it gives the same listing.\<close>

definition synced :: "file_storage \<Rightarrow> fworld \<Rightarrow> bool" where
  "synced st w =
     (sort_key createdAt (map_values (disk_map w (f_filepath st))) =
      sort_key createdAt (map_values (f_map st)))"

text \<open>The medium does not fail during a call.\<close>

definition no_failure :: "env \<Rightarrow> bool" where
  "no_failure env =
     (mkdir_err env = None \<and> read_err env = None \<and> write_err env = None \<and>
      rename_err env = None \<and> rm_err env = None \<and> open_err env = None \<and>
      exec_err env = None \<and> run_err env = None \<and> get_err env = None \<and>
      all_err env = None \<and> close_err env = None)"

text \<open>The records returned by the \<^verbatim>\<open>addTodo\<close> calls of a run, in order.\<close>

fun added_todos :: "(error + reply) list \<Rightarrow> todo list" where
  "added_todos [] = []"
| "added_todos (Inr (RTodo t) # rs) = t # added_todos rs"
| "added_todos (r # rs) = added_todos rs"

fun is_add :: "call \<Rightarrow> bool" where
  "is_add (AddTodo d) = True"
| "is_add c = False"

text \<open>The identifiers generated for the \<^verbatim>\<open>addTodo\<close> calls of a sequence.\<close>

definition add_uuids :: "(env \<times> call) list \<Rightarrow> string list" where
  "add_uuids cs = map (\<lambda>ec. uuid (fst ec)) (filter (\<lambda>ec. is_add (snd ec)) cs)"

text \<open>
  What holds of a File Backend instance between calls when the medium does not fail: the
  map is keyed by the identifiers, the mode is one of the two, and the file lists the
  records unless a deferred write is pending.
\<close>

definition file_inv :: "file_storage \<Rightarrow> fworld \<Rightarrow> bool" where
  "file_inv st w =
     (keys_ok (f_map st) \<and> (f_mode st = ''onClose'' \<or> f_mode st = ''immediate'') \<and>
      (f_mode st = ''immediate'' \<or> \<not> f_dirty st \<longrightarrow> synced st w))"

definition adds_only :: "(env \<times> call) list \<Rightarrow> bool" where
  "adds_only cs = list_all (\<lambda>ec. no_failure (fst ec) \<and> is_add (snd ec)) cs"

text \<open>Stages of a sample round trip through the file.\<close>

definition file_after_init :: file_storage where
  "file_after_init = fresh_file\<lparr>f_inited := True, f_dirty := True\<rparr>"

definition file_after_add :: file_storage where
  "file_after_add = file_after_init\<lparr>f_map := [(''u3'', todo_three)]\<rparr>"

text \<open>
  The constructed instance once \<^verbatim>\<open>init\<close> has begun and waits, and the same instance after
  an \<^verbatim>\<open>addTodo\<close> served during that wait.
\<close>

definition file_init_begun :: file_storage where
  "file_init_begun = fresh_file\<lparr>f_inited := True\<rparr>"

definition file_added_during_init :: file_storage where
  "file_added_during_init = file_init_begun\<lparr>f_map := [(''u3'', todo_three)], f_dirty := True\<rparr>"

definition disk_after_close :: fworld where
  "disk_after_close =
     (Map.empty(tmpPath env_three (path_join ''db'' ''todo.json'') := None))
       (path_join ''db'' ''todo.json'' \<mapsto> Array True [Item todo_three])"

section \<open>The two backends side by side\<close>

text \<open>Pagination arguments within bounds: neither is negative.\<close>

fun args_ok :: "call \<Rightarrow> bool" where
  "args_ok (GetAllTodos (Some l) off) = (0 \<le> l \<and> 0 \<le> off)"
| "args_ok c = True"

text \<open>
  A sequence of calls uses the contract as the request-handling layer does: the medium
  does not fail, and every call other than \<^verbatim>\<open>init\<close> and \<^verbatim>\<open>close\<close> is made on an
  initialised backend (after an \<^verbatim>\<open>init\<close> and before the next \<^verbatim>\<open>close\<close>), with
  pagination arguments within bounds. The flag tells whether the backend is initialised
  when the sequence starts.
\<close>

fun contract_use :: "bool \<Rightarrow> (env \<times> call) list \<Rightarrow> bool" where
  "contract_use b [] = True"
| "contract_use b ((e, Init) # cs) = (no_failure e \<and> contract_use True cs)"
| "contract_use b ((e, Close) # cs) = (no_failure e \<and> contract_use False cs)"
| "contract_use b ((e, c) # cs) = (no_failure e \<and> b \<and> args_ok c \<and> contract_use b cs)"

text \<open>
  The two instances hold the same records: the listings agree, the table has one row per
  identifier, both are initialised or neither is, and the file of a closed File Backend
  instance is up to date.
\<close>

definition sim :: "bool \<Rightarrow> file_storage \<Rightarrow> fworld \<Rightarrow> sqlite_storage \<Rightarrow> sworld \<Rightarrow> bool" where
  "sim b st w sst sw =
     (file_inv st w \<and> f_inited st = b \<and> s_inited sst = b \<and>
      s_db sst = (if b then Some (s_filepath sst) else None) \<and>
      (b \<longrightarrow> sw (s_filepath sst) \<noteq> None) \<and>
      (\<not> b \<longrightarrow> synced st w) \<and>
      distinct (map col_id (stored_rows sst sw)) \<and>
      sort_key createdAt (map_values (f_map st)) =
        sort_key createdAt (map rowToTodo (stored_rows sst sw)))"

definition default_sqlite_options :: sqlite_options where
  "default_sqlite_options = \<lparr>so_filepath = None, so_schemaPath = None, so_busyTimeout = None\<rparr>"

definition todo_three_done :: todo where
  "todo_three_done = \<lparr>id' = ''u3'', title = ''Three'', description = [], done' = True,
     createdAt = ''2024-05-01T10:00:00.003Z'', updatedAt = ''2024-05-01T10:00:00.003Z''\<rparr>"

text \<open>A session: open, add, page, update, close, reopen, look up, delete, list.\<close>

definition sample_calls :: "(env \<times> call) list" where
  "sample_calls =
     [(env_three, Init), (env_three, AddTodo (Some data_three)),
      (env_three, GetAllTodos (Some 1) 0), (env_three, UpdateTodo ''u3'' patch_done),
      (env_three, Close), (env_three, Init), (env_three, GetTodoById ''u3''),
      (env_three, DeleteTodo ''u3''), (env_three, GetAllTodos None 0)]"

section \<open>Basic facts\<close>

lemma js_whitespace_lengths:
  "q \<in> set js_whitespace \<Longrightarrow> q \<noteq> [] \<and> length q = lead_length (hd q)"
  by (auto simp: js_whitespace_def lead_length_def)

lemma chars_whitespace:
  assumes "q \<in> set js_whitespace"
  shows "chars (q @ s) = q # chars s"
proof -
  from js_whitespace_lengths[OF assms] obtain c q' where q: "q = c # q'"
    and l: "length q' = lead_length c - 1"
    by (cases q) auto
  show ?thesis by (simp add: q l)
qed

lemma blank_concat: "blank s \<longleftrightarrow> concat_of js_whitespace s"
proof
  show "concat_of js_whitespace s" if "blank s"
    using that
  proof (induction s rule: chars.induct)
    case 1
    show ?case by (rule concat_of_Nil)
  next
    case (2 c s)
    let ?n = "lead_length c - 1"
    from "2.prems" have q: "c # take ?n s \<in> set js_whitespace" and b: "blank (drop ?n s)"
      by (simp_all add: blank_def)
    from concat_of_Cons[OF q "2.IH"[OF b]] show ?case by simp
  qed
  show "blank s" if "concat_of js_whitespace s"
    using that
  proof (induction rule: concat_of.induct)
    case concat_of_Nil
    show ?case by (simp add: blank_def)
  next
    case (concat_of_Cons q s)
    then show ?case by (simp add: blank_def chars_whitespace)
  qed
qed

lemma strip_leading_fixed: "find (starts_with (strip_leading qs s)) qs = None"
proof (induction qs s rule: strip_leading.induct)
  case (1 qs s)
  show ?case
  proof (cases "find (starts_with s) qs")
    case None
    then show ?thesis by (simp add: strip_leading.simps[of qs s])
  next
    case (Some q)
    with 1 show ?thesis by (simp add: strip_leading.simps[of qs s])
  qed
qed

lemma strip_leading_Nil: "strip_leading qs s = [] \<Longrightarrow> concat_of qs s"
proof (induction qs s rule: strip_leading.induct)
  case (1 qs s)
  show ?case
  proof (cases "find (starts_with s) qs")
    case None
    with "1.prems" have "s = []" by (simp add: strip_leading.simps[of qs s])
    then show ?thesis by (simp add: concat_of_Nil)
  next
    case (Some q)
    then have q: "q \<in> set qs" "take (length q) s = q"
      by (auto simp: find_Some_iff starts_with_def)
    from Some "1.prems" have "strip_leading qs (drop (length q) s) = []"
      by (simp add: strip_leading.simps[of qs s])
    from "1.IH"[OF Some this] have "concat_of qs (drop (length q) s)" .
    from concat_of_Cons[OF q(1) this] q(2) show ?thesis
      by (metis append_take_drop_id)
  qed
qed

lemma concat_of_starts:
  "concat_of qs s \<Longrightarrow> s \<noteq> [] \<Longrightarrow> \<exists>q \<in> set qs. starts_with s q"
proof (induction rule: concat_of.induct)
  case concat_of_Nil
  then show ?case by simp
next
  case (concat_of_Cons q s)
  show ?case
  proof (cases "q = []")
    case True
    with concat_of_Cons show ?thesis by simp
  next
    case False
    with concat_of_Cons(1) show ?thesis by (auto simp: starts_with_def)
  qed
qed

lemma find_starts_None: "find (starts_with s) qs = None \<longleftrightarrow> (\<forall>q \<in> set qs. \<not> starts_with s q)"
  by (auto simp: find_None_iff)

lemma strip_leading_empty: "strip_leading qs [] = []"
proof -
  have "find (starts_with []) qs = None" by (simp add: find_None_iff starts_with_def)
  then show ?thesis by (subst strip_leading.simps) simp
qed

lemma concat_of_fixed: "concat_of qs (strip_leading qs s) \<Longrightarrow> strip_leading qs s = []"
  using concat_of_starts[of qs "strip_leading qs s"] strip_leading_fixed[of qs s]
  by (auto simp: find_starts_None)

lemma concat_of_append: "concat_of qs a \<Longrightarrow> concat_of qs b \<Longrightarrow> concat_of qs (a @ b)"
  by (induction rule: concat_of.induct) (auto intro: concat_of.intros)

lemma concat_of_rev: "concat_of (map rev qs) s \<Longrightarrow> concat_of qs (rev s)"
proof (induction rule: concat_of.induct)
  case concat_of_Nil
  then show ?case by (simp add: concat_of.concat_of_Nil)
next
  case (concat_of_Cons q s)
  then obtain q' where q': "q' \<in> set qs" "q = rev q'" by auto
  have "concat_of qs q'" using concat_of.intros(2)[OF q'(1) concat_of.intros(1)] by simp
  with concat_of_Cons.IH show ?case by (simp add: q'(2) concat_of_append)
qed

lemma blank_strip: "blank s \<Longrightarrow> strip_leading js_whitespace s = []"
  unfolding blank_concat
proof (induction rule: concat_of.induct)
  case concat_of_Nil
  then show ?case by (simp add: strip_leading_empty)
next
  case (concat_of_Cons q s)
  from js_whitespace_lengths[OF concat_of_Cons(1)] have q: "q \<noteq> []" "length q = lead_length (hd q)"
    by auto
  then have st: "starts_with (q @ s) q" by (simp add: starts_with_def)
  then obtain q' where f: "find (starts_with (q @ s)) js_whitespace = Some q'"
    using concat_of_Cons(1) by (cases "find (starts_with (q @ s)) js_whitespace") (auto simp: find_None_iff)
  then have q': "q' \<in> set js_whitespace" "starts_with (q @ s) q'"
    by (auto simp: find_Some_iff)
  from js_whitespace_lengths[OF q'(1)] have l': "q' \<noteq> []" "length q' = lead_length (hd q')" by auto
  have "hd q' = hd (q @ s)" using q'(2) l'(1) by (metis starts_with_def hd_take length_greater_0_conv)
  also have "\<dots> = hd q" using q(1) by simp
  finally have "length q' = length q" using q(2) l'(2) by simp
  then have "q' = q" using q'(2) by (simp add: starts_with_def)
  with f concat_of_Cons.IH show ?case by (simp add: strip_leading.simps[of js_whitespace "q @ s"])
qed

lemma trim_blank: "trim s = [] \<longleftrightarrow> blank s"
proof
  assume t: "trim s = []"
  let ?t = "strip_leading js_whitespace s"
  from t have "strip_leading (map rev js_whitespace) (rev ?t) = []" by (simp add: trim_def)
  then have "concat_of (map rev js_whitespace) (rev ?t)" by (rule strip_leading_Nil)
  then have "concat_of js_whitespace ?t" using concat_of_rev by fastforce
  then have "?t = []" by (rule concat_of_fixed)
  then show "blank s" unfolding blank_concat by (rule strip_leading_Nil)
next
  assume "blank s"
  then have "strip_leading js_whitespace s = []" by (rule blank_strip)
  then show "trim s = []"
    by (simp add: trim_def strip_leading_empty)
qed

lemma blank_head: "blank s \<Longrightarrow> s \<noteq> [] \<Longrightarrow> hd s \<in> hd ` set js_whitespace"
proof -
  assume "blank s" "s \<noteq> []"
  then obtain q where q: "q \<in> set js_whitespace" "starts_with s q"
    using concat_of_starts[of js_whitespace s] by (auto simp: blank_concat)
  then have "hd q = hd s" by (metis starts_with_def hd_take length_greater_0_conv)
  with q(1) show ?thesis by (metis imageI)
qed

lemma blank_Nil: "blank []"
  by (simp add: blank_def)

lemma not_blank_Three: "\<not> blank ''Three''"
  by (simp add: blank_def lead_length_def js_whitespace_def)

lemma blank_nbsp: "blank [CHR 0xC2, CHR 0xA0]"
  by (simp add: blank_def lead_length_def js_whitespace_def)

lemma blank_sp_tab: "blank [CHR 0x20, CHR 0x09]"
  by (simp add: blank_def lead_length_def js_whitespace_def)

lemma trim_Three: "trim ''Three'' = ''Three''"
  by (simp add: trim_def strip_leading.simps starts_with_def js_whitespace_def)

lemma tmpPath_neq: "tmpPath env p \<noteq> p"
proof
  assume "tmpPath env p = p"
  then have "basename (tmpPath env p) = basename p" by simp
  then show False by (simp add: tmpPath_def path_join_def)
qed

lemma tmpPath_dirname: "dirname (tmpPath env p) = dirname p"
  by (simp add: tmpPath_def path_join_def)

section \<open>The write path of the File Backend\<close>

lemma writeToDisk_ok:
  assumes "write_err env = None" "rename_err env = None"
  shows "FileStorage_writeToDisk env st w =
     (Inr (), st\<lparr>f_dirty := False\<rparr>,
      (w(tmpPath env (f_filepath st) := None))
        (f_filepath st \<mapsto>
           Array (f_pretty st) (map Item (sort_key createdAt (map_values (f_map st))))))"
  using assms tmpPath_neq[of env "f_filepath st"]
  by (auto simp: FileStorage_writeToDisk_def writeFile_def rename_def Let_def)

lemma writeToDisk_write_fails:
  assumes "write_err env = Some (e, leftover)"
  shows "FileStorage_writeToDisk env st w =
     (Inl (MediumError e), st,
      rm_ignore env (w(tmpPath env (f_filepath st) := leftover)) (tmpPath env (f_filepath st)))"
  using assms
  by (simp add: FileStorage_writeToDisk_def writeFile_def writeFile_failed_def Let_def)

lemma writeToDisk_rename_fails:
  assumes "write_err env = None" "rename_err env = Some e"
  shows "FileStorage_writeToDisk env st w =
     (Inl (MediumError e), st,
      rm_ignore env (w(tmpPath env (f_filepath st) \<mapsto>
          Array (f_pretty st) (map Item (sort_key createdAt (map_values (f_map st))))))
        (tmpPath env (f_filepath st)))"
  using assms
  by (simp add: FileStorage_writeToDisk_def writeFile_def rename_def Let_def)

lemma rm_ignore_other: "p \<noteq> q \<Longrightarrow> rm_ignore env w q p = w p"
  by (simp add: rm_ignore_def split: option.splits)

lemma rm_ignore_ok: "rm_err env = None \<Longrightarrow> rm_ignore env w q q = None"
  by (simp add: rm_ignore_def)

lemma writeToDisk_fails:
  assumes "write_fails env e"
  shows "\<exists>w'. FileStorage_writeToDisk env st w = (Inl (MediumError e), st, w')"
proof (cases "write_err env")
  case None
  then show ?thesis using assms writeToDisk_rename_fails[of env e st w]
    by (simp add: write_fails_def)
next
  case (Some a)
  then show ?thesis using assms writeToDisk_write_fails[of env e "snd a" st w]
    by (cases a) (simp add: write_fails_def)
qed

lemma writeToDisk_succeeds:
  assumes "write_succeeds env"
  shows "\<exists>w'. FileStorage_writeToDisk env st w = (Inr (), st\<lparr>f_dirty := False\<rparr>, w')"
  using assms writeToDisk_ok[of env st w] by (simp add: write_succeeds_def)

text \<open>
  C3. The write path of the File Backend. The temporary file lies in the directory of the
  target and is a different path; the array written is the full in-memory set in
  ascending \<^verbatim>\<open>createdAt\<close> order; no path other than the two is touched. When neither
  \<^verbatim>\<open>writeFile\<close> nor \<^verbatim>\<open>rename\<close> fails, the call returns, the target holds the serialized
  array, the temporary file is gone and the dirty flag is cleared. When either fails, the
  error is raised with its code, the instance (its dirty flag included) is as before,
  the target file is as before, and the temporary file is gone unless its removal failed
  as well.
\<close>

theorem writeToDisk_crash_safe:
  "case FileStorage_writeToDisk env st w of (r, st', w') \<Rightarrow>
     (let target = f_filepath st; tmp = tmpPath env target;
          arr = sort_key createdAt (map_values (f_map st)) in
      dirname tmp = dirname target \<and> tmp \<noteq> target \<and>
      sorted (map createdAt arr) \<and> mset arr = mset (map_values (f_map st)) \<and>
      (\<forall>p. p \<noteq> tmp \<and> p \<noteq> target \<longrightarrow> w' p = w p) \<and>
      (write_err env = None \<and> rename_err env = None \<longrightarrow>
         r = Inr () \<and> w' target = Some (Array (f_pretty st) (map Item arr)) \<and> w' tmp = None \<and>
         st' = st\<lparr>f_dirty := False\<rparr>) \<and>
      (\<forall>e. (\<exists>l. write_err env = Some (e, l)) \<or> (write_err env = None \<and> rename_err env = Some e) \<longrightarrow>
         r = Inl (MediumError e) \<and> st' = st \<and> f_dirty st' = f_dirty st \<and>
         w' target = w target \<and> (rm_err env = None \<longrightarrow> w' tmp = None)))"
proof (cases "write_err env")
  case None
  note w = this
  show ?thesis
  proof (cases "rename_err env")
    case None
    show ?thesis
      using tmpPath_neq[of env "f_filepath st"]
      by (simp add: writeToDisk_ok[OF w None] tmpPath_dirname Let_def w None)
  next
    case (Some e)
    show ?thesis
      using tmpPath_neq[of env "f_filepath st"]
      by (auto simp add: writeToDisk_rename_fails[OF w Some] tmpPath_dirname Let_def w Some
            rm_ignore_other rm_ignore_ok)
  qed
next
  case (Some a)
  obtain e l where a: "a = (e, l)" by (cases a)
  show ?thesis
    using tmpPath_neq[of env "f_filepath st"]
    by (auto simp add: writeToDisk_write_fails[OF Some[unfolded a]] tmpPath_dirname Let_def
          Some a rm_ignore_other rm_ignore_ok)
qed

theorem writeToDisk_crash_safe_witness:
  "(case FileStorage_writeToDisk (ok_env ''t'' ''u'') (sample_file ''onClose'')
           (Map.empty(sample_path \<mapsto> Blank)) of
      (r, st', w') \<Rightarrow> r = Inr () \<and> \<not> f_dirty st' \<and>
         w' sample_path = Some (Array True [Item todo_one, Item todo_two]) \<and>
         w' (tmpPath (ok_env ''t'' ''u'') sample_path) = None) \<and>
   (case FileStorage_writeToDisk ((ok_env ''t'' ''u'')\<lparr>rename_err := Some ''EXDEV''\<rparr>)
           (sample_file ''onClose'') (Map.empty(sample_path \<mapsto> Blank)) of
      (r, st', w') \<Rightarrow> r = Inl (MediumError ''EXDEV'') \<and> f_dirty st' \<and>
         w' sample_path = Some Blank \<and>
         w' (tmpPath (ok_env ''t'' ''u'') sample_path) = None)"
  using writeToDisk_crash_safe[where env = "ok_env ''t'' ''u''" and st = "sample_file ''onClose''"
          and w = "Map.empty(sample_path \<mapsto> Blank)"]
        writeToDisk_crash_safe[where env = "(ok_env ''t'' ''u'')\<lparr>rename_err := Some ''EXDEV''\<rparr>"
          and st = "sample_file ''onClose''" and w = "Map.empty(sample_path \<mapsto> Blank)"]
  by (simp add: ok_env_def sample_file_def map_values_def todo_one_def todo_two_def Let_def
        tmpPath_def split: prod.splits)

section \<open>The operations of the File Backend\<close>

lemma map_of_map_set: "map_of (map_set k v m) = (map_of m)(k \<mapsto> v)"
  by (induction m) (auto simp: fun_eq_iff)

lemma map_get_map_set: "map_get k' (map_set k v m) = (if k' = k then Some v else map_get k' m)"
  by (simp add: map_get_def map_of_map_set)

lemma map_of_map_delete: "map_of (map_delete k m) = (map_of m)(k := None)"
  by (induction m) (auto simp: fun_eq_iff map_delete_def)

lemma map_get_map_delete: "map_get k' (map_delete k m) = (if k' = k then None else map_get k' m)"
  by (simp add: map_get_def map_of_map_delete)

lemma map_has_get: "map_has k m \<longleftrightarrow> map_get k m \<noteq> None"
  by (simp add: map_has_def map_get_def)

lemma map_has_keys: "map_has k m \<longleftrightarrow> k \<in> fst ` set m"
  by (simp add: map_has_def map_of_eq_None_iff)

lemma map_get_in_values: "map_get k m = Some v \<Longrightarrow> v \<in> set (map_values m)"
  by (auto simp: map_get_def map_values_def dest: map_of_SomeD intro: rev_image_eqI)

lemma ensureInit_fields [simp]:
  "f_map (FileStorage_ensureInit st) = f_map st"
  "f_mode (FileStorage_ensureInit st) = f_mode st"
  "f_filepath (FileStorage_ensureInit st) = f_filepath st"
  "f_pretty (FileStorage_ensureInit st) = f_pretty st"
  "f_inited (FileStorage_ensureInit st) = True"
  by (simp_all add: FileStorage_ensureInit_def)

lemma ensureInit_inited: "f_inited st \<Longrightarrow> FileStorage_ensureInit st = st"
  by (simp add: FileStorage_ensureInit_def)

lemma ensureInit_idem [simp]:
  "FileStorage_ensureInit (FileStorage_ensureInit st) = FileStorage_ensureInit st"
  by (simp add: FileStorage_ensureInit_def)

lemma write_if_immediate_deferred:
  "f_mode st \<noteq> ''immediate'' \<Longrightarrow> write_if_immediate env r st w = (Inr r, st, w)"
  by (simp add: write_if_immediate_def)

lemma write_if_immediate_ok:
  assumes "f_mode st = ''immediate''" "write_succeeds env"
  shows "\<exists>w'. write_if_immediate env r st w = (Inr r, st\<lparr>f_dirty := False\<rparr>, w')"
  using assms writeToDisk_succeeds[of env st w] by (auto simp: write_if_immediate_def)

lemma write_if_immediate_fails:
  assumes "f_mode st = ''immediate''" "write_fails env e"
  shows "\<exists>w'. write_if_immediate env r st w = (Inl (MediumError e), st, w')"
  using assms writeToDisk_fails[of env e st w] by (auto simp: write_if_immediate_def)

lemma writeToDisk_cases:
  "(\<exists>e w'. FileStorage_writeToDisk env st w = (Inl (MediumError e), st, w')) \<or>
   (\<exists>w'. FileStorage_writeToDisk env st w = (Inr (), st\<lparr>f_dirty := False\<rparr>, w'))"
  by (auto simp: FileStorage_writeToDisk_def Let_def split: sum.splits)

lemma write_if_immediate_cases:
  "(\<exists>e w'. write_if_immediate env r st w = (Inl (MediumError e), st, w')) \<or>
   (\<exists>w'. write_if_immediate env r st w = (Inr r, st\<lparr>f_dirty := False\<rparr>, w')) \<or>
   write_if_immediate env r st w = (Inr r, st, w)"
  using writeToDisk_cases[of env st w] by (auto simp: write_if_immediate_def)

lemma write_if_immediate_reply:
  "f_mode st = ''immediate'' \<longrightarrow> write_succeeds env \<Longrightarrow>
   \<exists>st' w'. write_if_immediate env r st w = (Inr r, st', w') \<and> f_map st' = f_map st \<and>
      f_inited st' = f_inited st \<and> f_mode st' = f_mode st \<and> f_filepath st' = f_filepath st"
  using write_if_immediate_ok[of st env r w] write_if_immediate_deferred[of st env r w]
  by (cases "f_mode st = ''immediate''") auto

lemma addTodo_rejected:
  "title_rejected d \<Longrightarrow>
   FileStorage_addTodo env d st w = (Inl ValidationError, FileStorage_ensureInit st, w)"
  by (auto simp: FileStorage_addTodo_def title_rejected_def trim_blank Let_def
           split: option.splits jsval.splits)

lemma addTodo_accepted:
  "\<not> title_rejected (Some d) \<Longrightarrow>
   FileStorage_addTodo env (Some d) st w =
     write_if_immediate env (new_todo env d)
       ((FileStorage_ensureInit st)
          \<lparr>f_map := map_set (uuid env) (new_todo env d) (f_map st), f_dirty := True\<rparr>) w"
  by (auto simp: FileStorage_addTodo_def title_rejected_def trim_blank Let_def new_todo_def
           split: option.splits jsval.splits)

lemma getTodoById_eq:
  "FileStorage_getTodoById i st w = (Inr (map_get i (f_map st)), FileStorage_ensureInit st, w)"
  by (auto simp: FileStorage_getTodoById_def Let_def map_has_get)

lemma getAllTodos_all:
  "FileStorage_getAllTodos None off st w =
     (Inr (sort_key createdAt (map_values (f_map st))), FileStorage_ensureInit st, w)"
  by (simp add: FileStorage_getAllTodos_def Let_def)

lemma file_listing_eq: "file_listing st w = sort_key createdAt (map_values (f_map st))"
  by (simp add: file_listing_def getAllTodos_all)

lemma updateTodo_absent:
  "\<not> map_has i (f_map st) \<Longrightarrow>
   FileStorage_updateTodo env i p st w = (Inr None, FileStorage_ensureInit st, w)"
  by (simp add: FileStorage_updateTodo_def Let_def map_has_get)

lemma updateTodo_present:
  "map_get i (f_map st) = Some old \<Longrightarrow>
   FileStorage_updateTodo env i p st w =
     write_if_immediate env (Some (merged env p old))
       ((FileStorage_ensureInit st)
          \<lparr>f_map := map_set i (merged env p old) (f_map st), f_dirty := True\<rparr>) w"
  by (simp add: FileStorage_updateTodo_def Let_def merged_def)

lemma deleteTodo_absent:
  "\<not> map_has i (f_map st) \<Longrightarrow>
   FileStorage_deleteTodo env i st w = (Inr False, FileStorage_ensureInit st, w)"
  by (simp add: FileStorage_deleteTodo_def Let_def)

lemma deleteTodo_present:
  "map_has i (f_map st) \<Longrightarrow>
   FileStorage_deleteTodo env i st w =
     write_if_immediate env True
       ((FileStorage_ensureInit st)\<lparr>f_map := map_delete i (f_map st), f_dirty := True\<rparr>) w"
  by (simp add: FileStorage_deleteTodo_def Let_def)

lemma merged_fields [simp]:
  "id' (merged env p old) = id' old"
  "createdAt (merged env p old) = createdAt old"
  "updatedAt (merged env p old) = now env"
  "title (merged env p old) = (case p_title p of JStr s \<Rightarrow> s | _ \<Rightarrow> title old)"
  "description (merged env p old) =
     (if p_description p \<noteq> JUndefined then js_String (p_description p) else description old)"
  "done' (merged env p old) = (case p_done p of JBool b \<Rightarrow> b | _ \<Rightarrow> done' old)"
  by (simp_all add: merged_def)

section \<open>Calls served while \<open>init\<close> waits\<close>

lemma FileStorage_fresh:
  "FileStorage opts = Inr st \<Longrightarrow> f_map st = [] \<and> \<not> f_inited st \<and> \<not> f_dirty st"
  by (auto simp: FileStorage_def Let_def split: if_splits)

lemma fresh_file_constructed: "FileStorage default_options = Inr fresh_file"
  by (simp add: FileStorage_def default_options_def fresh_file_def)

lemma data_three_accepted: "\<not> title_rejected (Some data_three)"
  by (simp add: title_rejected_def data_three_def blank_def lead_length_def js_whitespace_def)

lemma new_todo_three: "new_todo env_three data_three = todo_three"
  by (simp add: new_todo_def env_three_def ok_env_def data_three_def todo_three_def)

text \<open>
  Once begun, \<^verbatim>\<open>init\<close> has marked the instance initialised, so \<^verbatim>\<open>_ensureInit\<close> leaves it
  as it is; and what \<^verbatim>\<open>init\<close> assigns in the end does not depend on the map held then.
\<close>

lemma ensureInit_after_begin:
  "FileStorage_init_begin st = Some st' \<Longrightarrow> FileStorage_ensureInit st' = st'"
  by (auto simp: FileStorage_init_begin_def FileStorage_ensureInit_def split: if_splits)

lemma init_load_discards_map:
  "FileStorage_init_load env (st\<lparr>f_map := m, f_dirty := d\<rparr>) w = (Inr u, st', w') \<Longrightarrow>
   FileStorage_init_load env st w = (Inr u, st', w')"
  by (auto simp: FileStorage_init_load_def readFile_def
      split: option.splits sum.splits content.splits if_splits)

text \<open>
  C9. A mutating call that arrives before \<^verbatim>\<open>init()\<close> has completed. The instance built
  from the default options begins \<^verbatim>\<open>init\<close>, which marks it initialised and waits for
  \<^verbatim>\<open>mkdir\<close> and \<^verbatim>\<open>readFile\<close>. An \<^verbatim>\<open>addTodo\<close> with the title \<^verbatim>\<open>Three\<close> is served meanwhile:
  it does not fail and returns the new record, which the instance holds. When
  \<^verbatim>\<open>readFile\<close> has answered that there is no file, \<^verbatim>\<open>init\<close> puts an empty map in place of
  the one that holds the record: after \<^verbatim>\<open>init\<close> the record is not found by its
  identifier and the listing is empty. On the instance initialised first, the same
  \<^verbatim>\<open>addTodo\<close> returns the same record, and it is found and listed afterwards. So the
  call does not behave as it does on an initialised empty store: the record it returned
  is lost.
\<close>

theorem add_during_init_is_lost:
  "FileStorage default_options = Inr fresh_file \<and>
   FileStorage_init_begin fresh_file = Some file_init_begun \<and>
   FileStorage_addTodo env_three (Some data_three) file_init_begun Map.empty =
     (Inr todo_three, file_added_during_init, Map.empty) \<and>
   file_listing file_added_during_init Map.empty = [todo_three] \<and>
   mkdir_err env_three = None \<and>
   FileStorage_init_load env_three file_added_during_init Map.empty =
     (Inr (), file_after_init, Map.empty) \<and>
   FileStorage_getTodoById ''u3'' file_after_init Map.empty =
     (Inr None, file_after_init, Map.empty) \<and>
   file_listing file_after_init Map.empty = [] \<and>
   FileStorage_init env_three fresh_file Map.empty = (Inr (), file_after_init, Map.empty) \<and>
   FileStorage_addTodo env_three (Some data_three) file_after_init Map.empty =
     (Inr todo_three, file_after_add, Map.empty) \<and>
   FileStorage_getTodoById ''u3'' file_after_add Map.empty =
     (Inr (Some todo_three), file_after_add, Map.empty) \<and>
   file_listing file_after_add Map.empty = [todo_three]"
proof -
  have t: "trim ''Three'' \<noteq> []"
    by (simp add: trim_blank blank_def lead_length_def js_whitespace_def)
  have 1: "FileStorage_init_begin fresh_file = Some file_init_begun"
    by (simp add: FileStorage_init_begin_def fresh_file_def file_init_begun_def)
  have 2: "FileStorage_addTodo env_three (Some data_three) file_init_begun Map.empty =
     (Inr todo_three, file_added_during_init, Map.empty)"
    using t
    by (simp add: FileStorage_addTodo_def FileStorage_ensureInit_def write_if_immediate_def
        file_init_begun_def file_added_during_init_def fresh_file_def data_three_def
        todo_three_def env_three_def ok_env_def map_has_def Let_def)
  have 3: "file_listing file_added_during_init Map.empty = [todo_three]"
    by (simp add: file_listing_def FileStorage_getAllTodos_def FileStorage_ensureInit_def
        file_added_during_init_def file_init_begun_def fresh_file_def map_values_def Let_def)
  have 4: "mkdir_err env_three = None"
    by (simp add: env_three_def ok_env_def)
  have 5: "FileStorage_init_load env_three file_added_during_init Map.empty =
     (Inr (), file_after_init, Map.empty)"
    by (simp add: FileStorage_init_load_def readFile_def file_added_during_init_def
        file_init_begun_def file_after_init_def fresh_file_def env_three_def ok_env_def)
  have 6: "FileStorage_getTodoById ''u3'' file_after_init Map.empty =
     (Inr None, file_after_init, Map.empty)"
    by (simp add: FileStorage_getTodoById_def FileStorage_ensureInit_def file_after_init_def
        fresh_file_def map_has_def Let_def)
  have 7: "file_listing file_after_init Map.empty = []"
    by (simp add: file_listing_def FileStorage_getAllTodos_def FileStorage_ensureInit_def
        file_after_init_def fresh_file_def map_values_def Let_def)
  have 8: "FileStorage_init env_three fresh_file Map.empty = (Inr (), file_after_init, Map.empty)"
    by (simp add: FileStorage_init_def FileStorage_init_begin_def FileStorage_init_load_def
        readFile_def fresh_file_def file_after_init_def env_three_def ok_env_def)
  have 9: "FileStorage_addTodo env_three (Some data_three) file_after_init Map.empty =
     (Inr todo_three, file_after_add, Map.empty)"
    using t
    by (simp add: FileStorage_addTodo_def FileStorage_ensureInit_def write_if_immediate_def
        file_after_init_def file_after_add_def fresh_file_def data_three_def
        todo_three_def env_three_def ok_env_def map_has_def Let_def)
  have 10: "FileStorage_getTodoById ''u3'' file_after_add Map.empty =
     (Inr (Some todo_three), file_after_add, Map.empty)"
    by (simp add: FileStorage_getTodoById_def FileStorage_ensureInit_def file_after_add_def
        file_after_init_def fresh_file_def map_has_def map_get_def Let_def)
  have 11: "file_listing file_after_add Map.empty = [todo_three]"
    by (simp add: file_listing_def FileStorage_getAllTodos_def FileStorage_ensureInit_def
        file_after_add_def file_after_init_def fresh_file_def map_values_def Let_def)
  show ?thesis
    by (intro conjI fresh_file_constructed 1 2 3 4 5 6 7 8 9 10 11)
qed

section \<open>A failed write in immediate mode\<close>

text \<open>
  C10. In immediate mode, when the physical write started by a mutating operation fails,
  the operation raises that error, the dirty flag is set afterwards, and the mutation
  stays in memory: after a failed \<^verbatim>\<open>addTodo\<close> the new record is returned by
  \<^verbatim>\<open>getTodoById\<close> and listed by \<^verbatim>\<open>getAllTodos\<close>, after a failed \<^verbatim>\<open>updateTodo\<close> the
  merged record is, and after a failed \<^verbatim>\<open>deleteTodo\<close> the record is gone from both.
\<close>

theorem immediate_write_failure_keeps_mutation:
  assumes "f_mode st = ''immediate''" "write_fails env e"
  shows
   "(\<not> title_rejected (Some d) \<longrightarrow>
      (case FileStorage_addTodo env (Some d) st w of (r, st', w') \<Rightarrow>
         r = Inl (MediumError e) \<and> f_dirty st' \<and>
         fst (FileStorage_getTodoById (uuid env) st' w') = Inr (Some (new_todo env d)) \<and>
         new_todo env d \<in> set (file_listing st' w'))) \<and>
    (map_get i (f_map st) = Some old \<longrightarrow>
      (case FileStorage_updateTodo env i p st w of (r, st', w') \<Rightarrow>
         r = Inl (MediumError e) \<and> f_dirty st' \<and>
         fst (FileStorage_getTodoById i st' w') = Inr (Some (merged env p old)) \<and>
         merged env p old \<in> set (file_listing st' w'))) \<and>
    (map_has i (f_map st) \<longrightarrow>
      (case FileStorage_deleteTodo env i st w of (r, st', w') \<Rightarrow>
         r = Inl (MediumError e) \<and> f_dirty st' \<and>
         fst (FileStorage_getTodoById i st' w') = Inr None \<and>
         file_listing st' w' = sort_key createdAt (map_values (map_delete i (f_map st)))))"
proof -
  have add: "case FileStorage_addTodo env (Some d) st w of (r, st', w') \<Rightarrow>
         r = Inl (MediumError e) \<and> f_dirty st' \<and>
         fst (FileStorage_getTodoById (uuid env) st' w') = Inr (Some (new_todo env d)) \<and>
         new_todo env d \<in> set (file_listing st' w')"
    if ok: "\<not> title_rejected (Some d)"
  proof -
    let ?st1 = "(FileStorage_ensureInit st)
          \<lparr>f_map := map_set (uuid env) (new_todo env d) (f_map st), f_dirty := True\<rparr>"
    have "f_mode ?st1 = ''immediate''" using assms by simp
    from write_if_immediate_fails[OF this assms(2), of "new_todo env d" w]
    obtain w' where "FileStorage_addTodo env (Some d) st w = (Inl (MediumError e), ?st1, w')"
      using ok by (auto simp: addTodo_accepted)
    moreover have "new_todo env d \<in> set (map_values (f_map ?st1))"
      by (rule map_get_in_values[of "uuid env"]) (simp add: map_get_map_set)
    ultimately show ?thesis
      by (simp add: getTodoById_eq map_get_map_set file_listing_eq)
  qed
  have upd: "case FileStorage_updateTodo env i p st w of (r, st', w') \<Rightarrow>
         r = Inl (MediumError e) \<and> f_dirty st' \<and>
         fst (FileStorage_getTodoById i st' w') = Inr (Some (merged env p old)) \<and>
         merged env p old \<in> set (file_listing st' w')"
    if ex: "map_get i (f_map st) = Some old"
  proof -
    let ?st1 = "(FileStorage_ensureInit st)
          \<lparr>f_map := map_set i (merged env p old) (f_map st), f_dirty := True\<rparr>"
    have "f_mode ?st1 = ''immediate''" using assms by simp
    from write_if_immediate_fails[OF this assms(2), of "Some (merged env p old)" w]
    obtain w' where "FileStorage_updateTodo env i p st w = (Inl (MediumError e), ?st1, w')"
      using ex by (auto simp: updateTodo_present)
    moreover have "merged env p old \<in> set (map_values (f_map ?st1))"
      by (rule map_get_in_values[of i]) (simp add: map_get_map_set)
    ultimately show ?thesis
      by (simp add: getTodoById_eq map_get_map_set file_listing_eq)
  qed
  have del: "case FileStorage_deleteTodo env i st w of (r, st', w') \<Rightarrow>
         r = Inl (MediumError e) \<and> f_dirty st' \<and>
         fst (FileStorage_getTodoById i st' w') = Inr None \<and>
         file_listing st' w' = sort_key createdAt (map_values (map_delete i (f_map st)))"
    if ex: "map_has i (f_map st)"
  proof -
    let ?st1 = "(FileStorage_ensureInit st)\<lparr>f_map := map_delete i (f_map st), f_dirty := True\<rparr>"
    have "f_mode ?st1 = ''immediate''" using assms by simp
    from write_if_immediate_fails[OF this assms(2), of True w]
    obtain w' where "FileStorage_deleteTodo env i st w = (Inl (MediumError e), ?st1, w')"
      using ex by (auto simp: deleteTodo_present)
    then show ?thesis
      by (simp add: getTodoById_eq map_get_map_delete file_listing_eq)
  qed
  show ?thesis using add upd del by blast
qed

lemma sort_sample: "sort_key createdAt [todo_two, todo_one] = [todo_one, todo_two]"
  by (simp add: todo_one_def todo_two_def)

theorem immediate_write_failure_keeps_mutation_witness:
  "(case FileStorage_deleteTodo (env_three\<lparr>write_err := Some (''ENOSPC'', None)\<rparr>) ''u2''
          (sample_file ''immediate'') Map.empty of
      (r, st', w') \<Rightarrow> r = Inl (MediumError ''ENOSPC'') \<and> f_dirty st' \<and>
         fst (FileStorage_getTodoById ''u2'' st' w') = Inr None \<and>
         file_listing st' w' = [todo_one]) \<and>
   (case FileStorage_addTodo (env_three\<lparr>write_err := Some (''ENOSPC'', None)\<rparr>) (Some data_three)
          (sample_file ''immediate'') Map.empty of
      (r, st', w') \<Rightarrow> r = Inl (MediumError ''ENOSPC'') \<and> f_dirty st' \<and>
         fst (FileStorage_getTodoById ''u3'' st' w') = Inr (Some todo_three))"
proof -
  let ?env = "env_three\<lparr>write_err := Some (''ENOSPC'', None)\<rparr>"
  have m: "f_mode (sample_file ''immediate'') = ''immediate''" by (simp add: sample_file_def)
  have f: "write_fails ?env ''ENOSPC''" by (simp add: write_fails_def)
  have h: "map_has ''u2'' (f_map (sample_file ''immediate''))"
    by (simp add: sample_file_def map_has_def)
  have n: "new_todo ?env data_three = todo_three" "uuid ?env = ''u3''"
    by (simp_all add: new_todo_def env_three_def ok_env_def data_three_def todo_three_def)
  have s: "sort_key createdAt (map_values (map_delete ''u2'' (f_map (sample_file ''immediate''))))
      = [todo_one]"
    by (simp add: sample_file_def map_delete_def map_values_def)
  show ?thesis
    using immediate_write_failure_keeps_mutation[OF m f, where i = "''u2''" and d = data_three
        and w = Map.empty] h data_three_accepted
    by (auto simp: n s)
qed

section \<open>The operations of the Relational Backend\<close>

lemma find_col_id_None: "find (\<lambda>r. col_id r = i) rows = None \<longleftrightarrow> i \<notin> row_ids rows"
  by (auto simp: find_None_iff row_ids_def)

lemma find_col_id_Some: "find (\<lambda>r. col_id r = i) rows = Some r \<Longrightarrow> r \<in> set rows \<and> col_id r = i"
  by (auto simp: find_Some_iff)

lemma filter_absent: "i \<notin> row_ids rows \<Longrightarrow> filter (\<lambda>r. col_id r \<noteq> i) rows = rows"
  by (induction rows) (auto simp: row_ids_def)

lemma filter_present_empty: "i \<notin> row_ids rows \<Longrightarrow> filter (\<lambda>r. col_id r = i) rows = []"
  by (induction rows) (auto simp: row_ids_def)

lemma filter_present_length: "i \<in> row_ids rows \<Longrightarrow> 0 < length (filter (\<lambda>r. col_id r = i) rows)"
  by (induction rows) (auto simp: row_ids_def)

lemma sq_addTodo_uninit:
  "\<not> s_inited st \<Longrightarrow> SqliteFileStorage_addTodo env d st w = (Inl NotInitialized, st, w)"
  by (simp add: SqliteFileStorage_addTodo_def)

lemma sq_addTodo_rejected:
  "s_inited st \<Longrightarrow> title_rejected d \<Longrightarrow>
   SqliteFileStorage_addTodo env d st w = (Inl ValidationError, st, w)"
  by (auto simp: SqliteFileStorage_addTodo_def title_rejected_def trim_blank
           split: option.splits jsval.splits)

lemma rowToTodo_todo_row [simp]: "rowToTodo (todo_row t) = t"
  by (simp add: rowToTodo_def todo_row_def)

lemma sq_addTodo_accepted:
  "s_inited st \<Longrightarrow> \<not> title_rejected (Some d) \<Longrightarrow>
   SqliteFileStorage_addTodo env (Some d) st w =
     (case sql_insert env st w (todo_row (new_todo env d)) of
        Inl e \<Rightarrow> (Inl e, st, w)
      | Inr w1 \<Rightarrow> (Inr (new_todo env d), st, w1))"
  unfolding SqliteFileStorage_addTodo_def new_todo_def todo_row_def title_rejected_def
  by (auto simp: trim_blank Let_def split: option.splits jsval.splits sum.splits)

lemma sql_insert_ok:
  "table st w = Inr (h, rows) \<Longrightarrow> run_err env = None \<Longrightarrow> col_id r \<notin> row_ids rows \<Longrightarrow>
   sql_insert env st w r = Inr (w(h \<mapsto> rows @ [r]))"
  by (simp add: sql_insert_def row_ids_def)

lemma table_after:
  "table st w = Inr (h, rows) \<Longrightarrow> table st (w(h \<mapsto> rows')) = Inr (h, rows')"
  by (auto simp: table_def split: option.splits)

lemma sq_getTodoById_eq:
  "s_inited st \<Longrightarrow> table st w = Inr (h, rows) \<Longrightarrow> get_err env = None \<Longrightarrow>
   SqliteFileStorage_getTodoById env i st w =
     (Inr (map_option rowToTodo (find (\<lambda>r. col_id r = i) rows)), st, w)"
  by (simp add: SqliteFileStorage_getTodoById_def sql_select_by_id_def split: option.splits)

lemma sq_getAllTodos_all:
  "s_inited st \<Longrightarrow> table st w = Inr (h, rows) \<Longrightarrow> all_err env = None \<Longrightarrow>
   SqliteFileStorage_getAllTodos env None off st w =
     (Inr (map rowToTodo (sort_key created_at rows)), st, w)"
  by (simp add: SqliteFileStorage_getAllTodos_def sql_select_all_def)

lemma sq_getAllTodos_page:
  "s_inited st \<Longrightarrow> table st w = Inr (h, rows) \<Longrightarrow> all_err env = None \<Longrightarrow>
   SqliteFileStorage_getAllTodos env (Some l) off st w =
     (Inr (map rowToTodo (sql_limit l off (sort_key created_at rows))), st, w)"
  by (simp add: SqliteFileStorage_getAllTodos_def sql_select_all_def)

lemma sqlite_listing_eq:
  "s_inited st \<Longrightarrow> table st w = Inr (h, rows) \<Longrightarrow> all_err env = None \<Longrightarrow>
   sqlite_listing env st w = map rowToTodo (sort_key created_at rows)"
  by (simp add: sqlite_listing_def sq_getAllTodos_all)

lemma sq_updateTodo_absent:
  "s_inited st \<Longrightarrow> table st w = Inr (h, rows) \<Longrightarrow> get_err env = None \<Longrightarrow>
   i \<notin> row_ids rows \<Longrightarrow>
   SqliteFileStorage_updateTodo env i p st w = (Inr None, st, w)"
  using find_col_id_None[of i rows]
  by (simp add: SqliteFileStorage_updateTodo_def sq_getTodoById_eq)

lemma sq_updateTodo_present:
  "s_inited st \<Longrightarrow> table st w = Inr (h, rows) \<Longrightarrow> get_err env = None \<Longrightarrow>
   run_err env = None \<Longrightarrow> find (\<lambda>r. col_id r = i) rows = Some r \<Longrightarrow>
   SqliteFileStorage_updateTodo env i p st w =
     (Inr (Some (merged env p (rowToTodo r))), st,
      w(h \<mapsto> map (\<lambda>x. if col_id x = i then update_row (merged env p (rowToTodo r)) x else x) rows))"
  by (simp add: SqliteFileStorage_updateTodo_def sq_getTodoById_eq sql_update_def Let_def
        merged_def update_row_def split del: if_split cong: if_cong)

lemma sq_deleteTodo_eq:
  "s_inited st \<Longrightarrow> table st w = Inr (h, rows) \<Longrightarrow> run_err env = None \<Longrightarrow>
   SqliteFileStorage_deleteTodo env i st w =
     (Inr (i \<in> row_ids rows), st, w(h \<mapsto> filter (\<lambda>r. col_id r \<noteq> i) rows))"
  using filter_present_empty[of i rows] filter_present_length[of i rows]
  by (auto simp: SqliteFileStorage_deleteTodo_def sql_delete_def)

section \<open>Creation\<close>

lemma find_append_absent:
  "i \<notin> row_ids rows \<Longrightarrow> col_id r = i \<Longrightarrow> find (\<lambda>x. col_id x = i) (rows @ [r]) = Some r"
  by (induction rows) (auto simp: row_ids_def)

lemma new_todo_fields:
  "id' (new_todo env d) = uuid env"
  "createdAt (new_todo env d) = now env"
  "updatedAt (new_todo env d) = now env"
  "done' (new_todo env d) = truthy (d_done d)"
  "description (new_todo env d) = (case d_description d of JStr s \<Rightarrow> s | _ \<Rightarrow> [])"
  "title (new_todo env d) = (case d_title d of JStr s \<Rightarrow> s | _ \<Rightarrow> [])"
  by (simp_all add: new_todo_def)

lemma accepted_title: "\<not> title_rejected (Some d) \<Longrightarrow> d_title d = JStr (title (new_todo env d))"
  by (auto simp: title_rejected_def new_todo_def split: jsval.splits)

lemma file_addTodo_validation:
  "fst (FileStorage_addTodo env d st w) = Inl ValidationError \<longleftrightarrow> title_rejected d"
proof (cases "title_rejected d")
  case True
  then show ?thesis by (simp add: addTodo_rejected)
next
  case False
  then obtain dd where d: "d = Some dd" by (cases d) (auto simp: title_rejected_def)
  show ?thesis
    using False write_if_immediate_cases[of env "new_todo env dd"
        "(FileStorage_ensureInit st)
          \<lparr>f_map := map_set (uuid env) (new_todo env dd) (f_map st), f_dirty := True\<rparr>" w]
    unfolding d by (auto simp: addTodo_accepted)
qed

lemma sqlite_addTodo_validation:
  assumes "s_inited st"
  shows "fst (SqliteFileStorage_addTodo env d st w) = Inl ValidationError \<longleftrightarrow> title_rejected d"
proof (cases "title_rejected d")
  case True
  then show ?thesis using assms by (simp add: sq_addTodo_rejected)
next
  case False
  then obtain dd where d: "d = Some dd" by (cases d) (auto simp: title_rejected_def)
  show ?thesis
    using False assms unfolding d
    by (auto simp: sq_addTodo_accepted sql_insert_def table_def
          split: sum.splits option.splits if_splits)
qed

lemma file_addTodo_returns:
  assumes "\<not> title_rejected (Some dd)" "f_mode st = ''immediate'' \<longrightarrow> write_succeeds env"
  shows "\<exists>st' w'. FileStorage_addTodo env (Some dd) st w = (Inr (new_todo env dd), st', w') \<and>
           map_get (uuid env) (f_map st') = Some (new_todo env dd) \<and>
           new_todo env dd \<in> set (file_listing st' w')"
proof -
  let ?st1 = "(FileStorage_ensureInit st)
          \<lparr>f_map := map_set (uuid env) (new_todo env dd) (f_map st), f_dirty := True\<rparr>"
  have "f_mode ?st1 = ''immediate'' \<longrightarrow> write_succeeds env" using assms by simp
  from write_if_immediate_reply[OF this, of "new_todo env dd" w]
  obtain st' w' where r: "write_if_immediate env (new_todo env dd) ?st1 w = (Inr (new_todo env dd), st', w')"
    and m: "f_map st' = f_map ?st1" by blast
  have g: "map_get (uuid env) (f_map st') = Some (new_todo env dd)"
    by (simp add: m map_get_map_set)
  have "new_todo env dd \<in> set (file_listing st' w')"
    using map_get_in_values[OF g] by (simp add: file_listing_eq)
  with r g show ?thesis using assms(1) by (auto simp: addTodo_accepted)
qed

lemma sqlite_addTodo_returns:
  assumes "\<not> title_rejected (Some dd)" "s_inited st" "table st w = Inr (h, rows)"
    "run_err env = None" "uuid env \<notin> row_ids rows"
  shows "\<exists>w'. SqliteFileStorage_addTodo env (Some dd) st w = (Inr (new_todo env dd), st, w') \<and>
           table st w' = Inr (h, rows @ [todo_row (new_todo env dd)]) \<and>
           (get_err env = None \<longrightarrow>
              fst (SqliteFileStorage_getTodoById env (uuid env) st w') = Inr (Some (new_todo env dd))) \<and>
           (all_err env = None \<longrightarrow> new_todo env dd \<in> set (sqlite_listing env st w'))"
proof -
  let ?r = "todo_row (new_todo env dd)"
  let ?w = "w(h \<mapsto> rows @ [?r])"
  have c: "col_id ?r = uuid env" by (simp add: todo_row_def new_todo_def)
  have i: "sql_insert env st w ?r = Inr ?w"
    using assms c by (simp add: sql_insert_ok)
  have t: "table st ?w = Inr (h, rows @ [?r])" using assms(3) by (rule table_after)
  have a: "SqliteFileStorage_addTodo env (Some dd) st w = (Inr (new_todo env dd), st, ?w)"
    using assms by (simp add: sq_addTodo_accepted i)
  have g: "get_err env = None \<longrightarrow>
     fst (SqliteFileStorage_getTodoById env (uuid env) st ?w) = Inr (Some (new_todo env dd))"
    using assms(2) t find_append_absent[OF assms(5) c]
    by (simp add: sq_getTodoById_eq)
  have l: "all_err env = None \<longrightarrow> new_todo env dd \<in> set (sqlite_listing env st ?w)"
  proof
    assume "all_err env = None"
    then have "sqlite_listing env st ?w = map rowToTodo (sort_key created_at (rows @ [?r]))"
      using assms(2) t by (simp add: sqlite_listing_eq)
    then show "new_todo env dd \<in> set (sqlite_listing env st ?w)"
      by (simp add: image_iff)
  qed
  show ?thesis
    by (rule exI[of _ ?w]) (use a t g l in simp)
qed

text \<open>
  C5. \<^verbatim>\<open>addTodo\<close> raises the validation error exactly when the title is missing, not a
  string or blank, that is, made of nothing but white space and line terminators, the
  no-break space and the other non-ASCII ones included (on the Relational Backend once
  it is initialised). Otherwise the new
  record has the generated identifier, the given title, the given description if it is a
  string and the empty string if it is absent, \<^verbatim>\<open>done\<close> as the truthiness of the
  argument's field (false when absent) and equal \<^verbatim>\<open>createdAt\<close> and \<^verbatim>\<open>updatedAt\<close>. The
  File Backend returns it and holds it (in immediate mode provided the write succeeds);
  the Relational Backend returns it and holds it when the insert succeeds (the engine
  reports no failure and the identifier is new).
\<close>

theorem addTodo_validation:
  "(fst (FileStorage_addTodo env d st w) = Inl ValidationError \<longleftrightarrow> title_rejected d) \<and>
   (s_inited sst \<longrightarrow>
      (fst (SqliteFileStorage_addTodo env d sst sw) = Inl ValidationError \<longleftrightarrow> title_rejected d)) \<and>
   (\<not> title_rejected (Some dd) \<longrightarrow>
      id' (new_todo env dd) = uuid env \<and>
      d_title dd = JStr (title (new_todo env dd)) \<and>
      (d_description dd = JUndefined \<longrightarrow> description (new_todo env dd) = []) \<and>
      (\<forall>s. d_description dd = JStr s \<longrightarrow> description (new_todo env dd) = s) \<and>
      (d_done dd = JUndefined \<longrightarrow> \<not> done' (new_todo env dd)) \<and>
      done' (new_todo env dd) = truthy (d_done dd) \<and>
      createdAt (new_todo env dd) = updatedAt (new_todo env dd) \<and>
      ((f_mode st = ''immediate'' \<longrightarrow> write_succeeds env) \<longrightarrow>
         (\<exists>st' w'. FileStorage_addTodo env (Some dd) st w = (Inr (new_todo env dd), st', w') \<and>
            map_get (uuid env) (f_map st') = Some (new_todo env dd) \<and>
            new_todo env dd \<in> set (file_listing st' w'))) \<and>
      (s_inited sst \<and> table sst sw = Inr (h, rows) \<and> run_err env = None \<and>
       uuid env \<notin> row_ids rows \<longrightarrow>
         (\<exists>w'. SqliteFileStorage_addTodo env (Some dd) sst sw = (Inr (new_todo env dd), sst, w') \<and>
            table sst w' = Inr (h, rows @ [todo_row (new_todo env dd)]) \<and>
            (get_err env = None \<longrightarrow>
               fst (SqliteFileStorage_getTodoById env (uuid env) sst w') =
                 Inr (Some (new_todo env dd))) \<and>
            (all_err env = None \<longrightarrow> new_todo env dd \<in> set (sqlite_listing env sst w')))))"
proof -
  have 1: "fst (FileStorage_addTodo env d st w) = Inl ValidationError \<longleftrightarrow> title_rejected d"
    by (rule file_addTodo_validation)
  have 2: "s_inited sst \<longrightarrow>
      (fst (SqliteFileStorage_addTodo env d sst sw) = Inl ValidationError \<longleftrightarrow> title_rejected d)"
    using sqlite_addTodo_validation by blast
  have 3: "\<not> title_rejected (Some dd) \<Longrightarrow> d_title dd = JStr (title (new_todo env dd))"
    by (rule accepted_title)
  have 4: "(d_description dd = JUndefined \<longrightarrow> description (new_todo env dd) = []) \<and>
      (\<forall>s. d_description dd = JStr s \<longrightarrow> description (new_todo env dd) = s) \<and>
      (d_done dd = JUndefined \<longrightarrow> \<not> done' (new_todo env dd)) \<and>
      done' (new_todo env dd) = truthy (d_done dd) \<and> id' (new_todo env dd) = uuid env \<and>
      createdAt (new_todo env dd) = updatedAt (new_todo env dd)"
    by (auto simp: new_todo_fields)
  show ?thesis
    using 1 2 3 4 file_addTodo_returns[of dd st env w]
      sqlite_addTodo_returns[of dd sst sw h rows env]
    by blast
qed

lemma data_blank_rejected: "title_rejected (Some data_blank)"
  by (simp add: title_rejected_def data_blank_def blank_def lead_length_def js_whitespace_def)

lemma data_nbsp_rejected: "title_rejected (Some data_nbsp)"
  by (simp add: title_rejected_def data_nbsp_def blank_def lead_length_def js_whitespace_def)

lemma data_wide_blank_rejected: "title_rejected (Some data_wide_blank)"
  by (simp add: title_rejected_def data_wide_blank_def blank_def lead_length_def
      js_whitespace_def)

lemma sample_table: "table sample_sqlite sample_db = Inr (sample_db_path, [row_two, row_one])"
  by (simp add: table_def sample_sqlite_def sample_db_def)

lemma sample_sqlite_inited: "s_inited sample_sqlite"
  by (simp add: sample_sqlite_def)

lemma env_three_fields:
  "uuid env_three = ''u3''" "now env_three = ''2024-05-01T10:00:00.003Z''"
  "run_err env_three = None" "get_err env_three = None" "all_err env_three = None"
  "write_err env_three = None" "rename_err env_three = None"
  by (simp_all add: env_three_def ok_env_def)

lemma sample_row_ids: "row_ids [row_two, row_one] = {''u1'', ''u2''}"
  by (auto simp: row_ids_def row_one_def row_two_def)

theorem addTodo_validation_witness:
  "fst (FileStorage_addTodo env_three None (sample_file ''immediate'') Map.empty) =
     Inl ValidationError \<and>
   fst (FileStorage_addTodo env_three (Some data_blank) (sample_file ''immediate'') Map.empty) =
     Inl ValidationError \<and>
   fst (SqliteFileStorage_addTodo env_three (Some data_blank) sample_sqlite sample_db) =
     Inl ValidationError \<and>
   fst (FileStorage_addTodo env_three (Some data_nbsp) (sample_file ''immediate'') Map.empty) =
     Inl ValidationError \<and>
   fst (SqliteFileStorage_addTodo env_three (Some data_nbsp) sample_sqlite sample_db) =
     Inl ValidationError \<and>
   fst (FileStorage_addTodo env_three (Some data_wide_blank) (sample_file ''immediate'')
      Map.empty) = Inl ValidationError \<and>
   fst (SqliteFileStorage_addTodo env_three (Some data_wide_blank) sample_sqlite sample_db) =
     Inl ValidationError \<and>
   fst (FileStorage_addTodo env_three (Some data_three) (sample_file ''immediate'') Map.empty) =
     Inr todo_three \<and>
   fst (SqliteFileStorage_addTodo env_three (Some data_three) sample_sqlite sample_db) =
     Inr todo_three"
proof -
  note A = addTodo_validation[where env = env_three and d = None
      and st = "sample_file ''immediate''" and w = Map.empty and dd = data_three
      and sst = sample_sqlite and sw = sample_db and h = sample_db_path
      and rows = "[row_two, row_one]"]
  note B = addTodo_validation[where env = env_three and d = "Some data_blank"
      and st = "sample_file ''immediate''" and w = Map.empty and dd = data_three
      and sst = sample_sqlite and sw = sample_db]
  note C = addTodo_validation[where env = env_three and d = "Some data_nbsp"
      and st = "sample_file ''immediate''" and w = Map.empty and dd = data_three
      and sst = sample_sqlite and sw = sample_db]
  note D = addTodo_validation[where env = env_three and d = "Some data_wide_blank"
      and st = "sample_file ''immediate''" and w = Map.empty and dd = data_three
      and sst = sample_sqlite and sw = sample_db]
  have none: "title_rejected None" by (simp add: title_rejected_def)
  have ws: "f_mode (sample_file ''immediate'') = ''immediate'' \<longrightarrow> write_succeeds env_three"
    by (simp add: write_succeeds_def env_three_fields)
  have fresh: "uuid env_three \<notin> row_ids [row_two, row_one]"
    by (simp add: sample_row_ids env_three_fields)
  have 1: "fst (FileStorage_addTodo env_three None (sample_file ''immediate'') Map.empty) =
     Inl ValidationError" using A none by blast
  have 2: "fst (FileStorage_addTodo env_three (Some data_blank) (sample_file ''immediate'')
      Map.empty) = Inl ValidationError" using B data_blank_rejected by blast
  have 3: "fst (SqliteFileStorage_addTodo env_three (Some data_blank) sample_sqlite sample_db) =
     Inl ValidationError" using B data_blank_rejected sample_sqlite_inited by blast
  have 6: "fst (FileStorage_addTodo env_three (Some data_nbsp) (sample_file ''immediate'')
      Map.empty) = Inl ValidationError" using C data_nbsp_rejected by blast
  have 7: "fst (SqliteFileStorage_addTodo env_three (Some data_nbsp) sample_sqlite sample_db) =
     Inl ValidationError" using C data_nbsp_rejected sample_sqlite_inited by blast
  have 8: "fst (FileStorage_addTodo env_three (Some data_wide_blank) (sample_file ''immediate'')
      Map.empty) = Inl ValidationError" using D data_wide_blank_rejected by blast
  have 9: "fst (SqliteFileStorage_addTodo env_three (Some data_wide_blank) sample_sqlite
      sample_db) = Inl ValidationError"
    using D data_wide_blank_rejected sample_sqlite_inited by blast
  from A data_three_accepted ws
  have "\<exists>st' w'. FileStorage_addTodo env_three (Some data_three) (sample_file ''immediate'')
      Map.empty = (Inr (new_todo env_three data_three), st', w')" by blast
  then have 4: "fst (FileStorage_addTodo env_three (Some data_three) (sample_file ''immediate'')
      Map.empty) = Inr todo_three" by (auto simp: new_todo_three)
  from A data_three_accepted sample_sqlite_inited sample_table fresh env_three_fields(3)
  have "\<exists>w'. SqliteFileStorage_addTodo env_three (Some data_three) sample_sqlite sample_db =
      (Inr (new_todo env_three data_three), sample_sqlite, w')" by blast
  then have 5: "fst (SqliteFileStorage_addTodo env_three (Some data_three) sample_sqlite
      sample_db) = Inr todo_three" by (auto simp: new_todo_three)
  show ?thesis by (intro conjI 1 2 3 6 7 8 9 4 5)
qed

section \<open>Update\<close>

lemma file_updateTodo_returns:
  assumes "map_get i (f_map st) = Some old" "f_mode st = ''immediate'' \<longrightarrow> write_succeeds env"
  shows "\<exists>st' w'. FileStorage_updateTodo env i p st w = (Inr (Some (merged env p old)), st', w') \<and>
           map_get i (f_map st') = Some (merged env p old)"
proof -
  let ?st1 = "(FileStorage_ensureInit st)
          \<lparr>f_map := map_set i (merged env p old) (f_map st), f_dirty := True\<rparr>"
  have "f_mode ?st1 = ''immediate'' \<longrightarrow> write_succeeds env" using assms by simp
  from write_if_immediate_reply[OF this, of "Some (merged env p old)" w]
  obtain st' w' where r: "write_if_immediate env (Some (merged env p old)) ?st1 w =
      (Inr (Some (merged env p old)), st', w')"
    and m: "f_map st' = f_map ?st1" by blast
  have g: "map_get i (f_map st') = Some (merged env p old)"
    by (simp add: m map_get_map_set)
  with r show ?thesis using assms(1) by (auto simp: updateTodo_present)
qed

lemma sqlite_updateTodo_returns:
  assumes "s_inited st" "fst (SqliteFileStorage_getTodoById env i st w) = Inr (Some old)"
    "run_err env = None"
  shows "\<exists>w'. SqliteFileStorage_updateTodo env i p st w = (Inr (Some (merged env p old)), st, w') \<and>
           fst (SqliteFileStorage_getTodoById env i st w') = Inr (Some (merged env p old))"
proof -
  from assms(1,2) obtain h rows where t: "table st w = Inr (h, rows)" and g: "get_err env = None"
    by (auto simp: SqliteFileStorage_getTodoById_def sql_select_by_id_def
             split: sum.splits option.splits)
  from assms(1,2) t g obtain r where f: "find (\<lambda>r. col_id r = i) rows = Some r"
    and o: "old = rowToTodo r"
    by (auto simp: sq_getTodoById_eq)
  let ?rows = "map (\<lambda>x. if col_id x = i then update_row (merged env p old) x else x) rows"
  let ?w = "w(h \<mapsto> ?rows)"
  have u: "SqliteFileStorage_updateTodo env i p st w = (Inr (Some (merged env p old)), st, ?w)"
    unfolding o by (rule sq_updateTodo_present[OF assms(1) t g assms(3) f])
  have t': "table st ?w = Inr (h, ?rows)" using t by (rule table_after)
  have cid: "col_id (update_row (merged env p old) r) = i"
    using find_col_id_Some[OF f] by (simp add: update_row_def)
  have f': "find (\<lambda>r. col_id r = i) ?rows = Some (update_row (merged env p old) r)"
    using f by (induction rows) (auto simp: update_row_def split: if_splits)
  have rt: "rowToTodo (update_row (merged env p old) r) = merged env p old"
    using find_col_id_Some[OF f] o
    by (simp add: rowToTodo_def update_row_def merged_def)
  have "fst (SqliteFileStorage_getTodoById env i st ?w) = Inr (Some (merged env p old))"
    by (simp add: sq_getTodoById_eq[OF assms(1) t' g] f' rt)
  with u show ?thesis by (intro exI[of _ ?w]) simp
qed

text \<open>
  C4. For an existing identifier and any patch, \<^verbatim>\<open>updateTodo\<close> returns a record with the
  \<^verbatim>\<open>id\<close> and \<^verbatim>\<open>createdAt\<close> of the prior record, \<^verbatim>\<open>updatedAt\<close> set to the current
  time, and each of \<^verbatim>\<open>title\<close>, \<^verbatim>\<open>description\<close>, \<^verbatim>\<open>done\<close> that the patch leaves out
  as it was; the returned record is the one then held. This holds on the File Backend
  (in immediate mode provided the write succeeds) and on the initialised Relational
  Backend (provided the engine reports no failure), where the prior record is the one
  \<^verbatim>\<open>getTodoById\<close> returns.
\<close>

theorem updateTodo_frame:
  "(map_get i (f_map st) = Some old \<and> (f_mode st = ''immediate'' \<longrightarrow> write_succeeds env) \<longrightarrow>
      (\<exists>t st' w'. FileStorage_updateTodo env i p st w = (Inr (Some t), st', w') \<and>
         map_get i (f_map st') = Some t \<and>
         id' t = id' old \<and> createdAt t = createdAt old \<and> updatedAt t = now env \<and>
         (p_title p = JUndefined \<longrightarrow> title t = title old) \<and>
         (p_description p = JUndefined \<longrightarrow> description t = description old) \<and>
         (p_done p = JUndefined \<longrightarrow> done' t = done' old))) \<and>
   (s_inited sst \<and> fst (SqliteFileStorage_getTodoById env i sst sw) = Inr (Some old) \<and>
    run_err env = None \<longrightarrow>
      (\<exists>t w'. SqliteFileStorage_updateTodo env i p sst sw = (Inr (Some t), sst, w') \<and>
         fst (SqliteFileStorage_getTodoById env i sst w') = Inr (Some t) \<and>
         id' t = id' old \<and> createdAt t = createdAt old \<and> updatedAt t = now env \<and>
         (p_title p = JUndefined \<longrightarrow> title t = title old) \<and>
         (p_description p = JUndefined \<longrightarrow> description t = description old) \<and>
         (p_done p = JUndefined \<longrightarrow> done' t = done' old)))"
proof -
  have m: "id' (merged env p old) = id' old \<and> createdAt (merged env p old) = createdAt old \<and>
     updatedAt (merged env p old) = now env \<and>
     (p_title p = JUndefined \<longrightarrow> title (merged env p old) = title old) \<and>
     (p_description p = JUndefined \<longrightarrow> description (merged env p old) = description old) \<and>
     (p_done p = JUndefined \<longrightarrow> done' (merged env p old) = done' old)"
    by simp
  show ?thesis
    using m file_updateTodo_returns[of i st old env p w]
      sqlite_updateTodo_returns[of sst env i sw old p]
    by blast
qed

lemma map_get_sample: "map_get ''u1'' (f_map (sample_file m)) = Some todo_one"
  by (simp add: map_get_def sample_file_def)

lemma sample_get_one:
  "fst (SqliteFileStorage_getTodoById env_three ''u1'' sample_sqlite sample_db) = Inr (Some todo_one)"
  by (simp add: sq_getTodoById_eq[OF sample_sqlite_inited sample_table] env_three_fields
        row_one_def row_two_def rowToTodo_def todo_one_def)

lemma todo_one_fields:
  "id' todo_one = ''u1''" "title todo_one = ''One''" "description todo_one = ''first''"
  "createdAt todo_one = ''2024-05-01T10:00:00.001Z''" "\<not> done' todo_one"
  by (simp_all add: todo_one_def)

theorem updateTodo_frame_witness:
  "(\<exists>t st' w'.
      FileStorage_updateTodo env_three ''u1'' patch_done (sample_file ''onClose'') Map.empty =
        (Inr (Some t), st', w') \<and>
      id' t = ''u1'' \<and> title t = ''One'' \<and> description t = ''first'' \<and>
      createdAt t = ''2024-05-01T10:00:00.001Z'' \<and> updatedAt t = ''2024-05-01T10:00:00.003Z'') \<and>
   (\<exists>t w'.
      SqliteFileStorage_updateTodo env_three ''u1'' patch_done sample_sqlite sample_db =
        (Inr (Some t), sample_sqlite, w') \<and>
      id' t = ''u1'' \<and> title t = ''One'' \<and> description t = ''first'' \<and>
      createdAt t = ''2024-05-01T10:00:00.001Z'' \<and> updatedAt t = ''2024-05-01T10:00:00.003Z'')"
proof -
  note U = updateTodo_frame[where env = env_three and i = "''u1''" and p = patch_done
      and st = "sample_file ''onClose''" and w = Map.empty and old = todo_one
      and sst = sample_sqlite and sw = sample_db]
  have d: "f_mode (sample_file ''onClose'') = ''immediate'' \<longrightarrow> write_succeeds env_three"
    by (simp add: sample_file_def)
  have p: "p_title patch_done = JUndefined" "p_description patch_done = JUndefined"
    by (simp_all add: patch_done_def)
  from U map_get_sample d p
  have 1: "\<exists>t st' w'.
      FileStorage_updateTodo env_three ''u1'' patch_done (sample_file ''onClose'') Map.empty =
        (Inr (Some t), st', w') \<and>
      id' t = id' todo_one \<and> title t = title todo_one \<and> description t = description todo_one \<and>
      createdAt t = createdAt todo_one \<and> updatedAt t = now env_three"
    by blast
  from U sample_sqlite_inited sample_get_one env_three_fields(3) p
  have 2: "\<exists>t w'.
      SqliteFileStorage_updateTodo env_three ''u1'' patch_done sample_sqlite sample_db =
        (Inr (Some t), sample_sqlite, w') \<and>
      id' t = id' todo_one \<and> title t = title todo_one \<and> description t = description todo_one \<and>
      createdAt t = createdAt todo_one \<and> updatedAt t = now env_three"
    by blast
  show ?thesis using 1 2 by (simp add: todo_one_fields env_three_fields)
qed

section \<open>Absent identifiers and deletion\<close>

lemma file_delete_true:
  assumes "fst (FileStorage_deleteTodo env i st w) = Inr True"
  shows "map_has i (f_map st) \<and>
    (case FileStorage_deleteTodo env i st w of (r, st', w') \<Rightarrow>
       f_map st' = map_delete i (f_map st) \<and> \<not> map_has i (f_map st') \<and>
       fst (FileStorage_getTodoById i st' w') = Inr None)"
proof -
  have h: "map_has i (f_map st)"
  proof (rule ccontr)
    assume "\<not> map_has i (f_map st)"
    from deleteTodo_absent[OF this, of env w] assms show False by simp
  qed
  let ?st1 = "(FileStorage_ensureInit st)\<lparr>f_map := map_delete i (f_map st), f_dirty := True\<rparr>"
  from write_if_immediate_cases[of env True ?st1 w]
  have "case write_if_immediate env True ?st1 w of (r, st', w') \<Rightarrow>
       f_map st' = map_delete i (f_map st)" by auto
  then show ?thesis using h
    by (auto simp: deleteTodo_present getTodoById_eq map_get_map_delete map_has_get
             split: prod.splits)
qed

lemma file_delete_present:
  assumes "map_has i (f_map st)" "f_mode st = ''immediate'' \<longrightarrow> write_succeeds env"
  shows "fst (FileStorage_deleteTodo env i st w) = Inr True"
proof -
  let ?st1 = "(FileStorage_ensureInit st)\<lparr>f_map := map_delete i (f_map st), f_dirty := True\<rparr>"
  have "f_mode ?st1 = ''immediate'' \<longrightarrow> write_succeeds env" using assms by simp
  from write_if_immediate_reply[OF this, of True w] show ?thesis
    using assms(1) by (auto simp: deleteTodo_present)
qed

lemma find_filter_absent: "find (\<lambda>r. col_id r = i) (filter (\<lambda>r. col_id r \<noteq> i) rows) = None"
  by (simp add: find_None_iff)

text \<open>
  C7. Absence is reported by a sentinel, not an error. For an identifier the store does
  not hold, \<^verbatim>\<open>getTodoById\<close> and \<^verbatim>\<open>updateTodo\<close> return \<^verbatim>\<open>null\<close> and \<^verbatim>\<open>deleteTodo\<close>
  returns \<^verbatim>\<open>false\<close>, and the records held are as before. \<^verbatim>\<open>deleteTodo\<close> returns
  \<^verbatim>\<open>true\<close> only when the identifier was held, the record is then removed and
  \<^verbatim>\<open>getTodoById\<close> returns \<^verbatim>\<open>null\<close> for it; and it does return \<^verbatim>\<open>true\<close> for an
  identifier that is held (on the File Backend in immediate mode provided the write
  succeeds). The Relational Backend is taken initialised, with an engine that reports no
  failure.
\<close>

theorem not_found_sentinels:
  "(\<not> map_has i (f_map st) \<longrightarrow>
      FileStorage_getTodoById i st w = (Inr None, FileStorage_ensureInit st, w) \<and>
      FileStorage_updateTodo env i p st w = (Inr None, FileStorage_ensureInit st, w) \<and>
      FileStorage_deleteTodo env i st w = (Inr False, FileStorage_ensureInit st, w) \<and>
      f_map (FileStorage_ensureInit st) = f_map st) \<and>
   (fst (FileStorage_deleteTodo env i st w) = Inr True \<longrightarrow>
      map_has i (f_map st) \<and>
      (case FileStorage_deleteTodo env i st w of (r, st', w') \<Rightarrow>
         f_map st' = map_delete i (f_map st) \<and> \<not> map_has i (f_map st') \<and>
         fst (FileStorage_getTodoById i st' w') = Inr None)) \<and>
   (map_has i (f_map st) \<and> (f_mode st = ''immediate'' \<longrightarrow> write_succeeds env) \<longrightarrow>
      fst (FileStorage_deleteTodo env i st w) = Inr True) \<and>
   (s_inited sst \<and> table sst sw = Inr (h, rows) \<and> get_err env = None \<and> run_err env = None \<longrightarrow>
      (i \<notin> row_ids rows \<longrightarrow>
         SqliteFileStorage_getTodoById env i sst sw = (Inr None, sst, sw) \<and>
         SqliteFileStorage_updateTodo env i p sst sw = (Inr None, sst, sw) \<and>
         SqliteFileStorage_deleteTodo env i sst sw = (Inr False, sst, sw)) \<and>
      (case SqliteFileStorage_deleteTodo env i sst sw of (r, sst', sw') \<Rightarrow>
         r = Inr (i \<in> row_ids rows) \<and> sst' = sst \<and>
         table sst sw' = Inr (h, filter (\<lambda>r. col_id r \<noteq> i) rows) \<and>
         fst (SqliteFileStorage_getTodoById env i sst' sw') = Inr None))"
proof -
  have 1: "\<not> map_has i (f_map st) \<longrightarrow>
      FileStorage_getTodoById i st w = (Inr None, FileStorage_ensureInit st, w) \<and>
      FileStorage_updateTodo env i p st w = (Inr None, FileStorage_ensureInit st, w) \<and>
      FileStorage_deleteTodo env i st w = (Inr False, FileStorage_ensureInit st, w) \<and>
      f_map (FileStorage_ensureInit st) = f_map st"
    by (simp add: getTodoById_eq updateTodo_absent deleteTodo_absent map_has_get)
  have 4: "(i \<notin> row_ids rows \<longrightarrow>
         SqliteFileStorage_getTodoById env i sst sw = (Inr None, sst, sw) \<and>
         SqliteFileStorage_updateTodo env i p sst sw = (Inr None, sst, sw) \<and>
         SqliteFileStorage_deleteTodo env i sst sw = (Inr False, sst, sw)) \<and>
      (case SqliteFileStorage_deleteTodo env i sst sw of (r, sst', sw') \<Rightarrow>
         r = Inr (i \<in> row_ids rows) \<and> sst' = sst \<and>
         table sst sw' = Inr (h, filter (\<lambda>r. col_id r \<noteq> i) rows) \<and>
         fst (SqliteFileStorage_getTodoById env i sst' sw') = Inr None)"
    if a: "s_inited sst" "table sst sw = Inr (h, rows)" "get_err env = None" "run_err env = None"
  proof -
    have same: "i \<notin> row_ids rows \<Longrightarrow> sw(h \<mapsto> filter (\<lambda>r. col_id r \<noteq> i) rows) = sw"
      using a(2) by (auto simp: filter_absent table_def split: option.splits)
    have t': "table sst (sw(h \<mapsto> filter (\<lambda>r. col_id r \<noteq> i) rows)) =
        Inr (h, filter (\<lambda>r. col_id r \<noteq> i) rows)"
      using a(2) by (rule table_after)
    show ?thesis
      using same find_col_id_None[of i rows]
      by (auto simp: sq_getTodoById_eq[OF a(1,2,3)] sq_updateTodo_absent[OF a(1,2,3)]
            sq_deleteTodo_eq[OF a(1,2,4)] sq_getTodoById_eq[OF a(1) t' a(3)] t'
            find_filter_absent)
  qed
  have 2: "fst (FileStorage_deleteTodo env i st w) = Inr True \<longrightarrow>
      map_has i (f_map st) \<and>
      (case FileStorage_deleteTodo env i st w of (r, st', w') \<Rightarrow>
         f_map st' = map_delete i (f_map st) \<and> \<not> map_has i (f_map st') \<and>
         fst (FileStorage_getTodoById i st' w') = Inr None)"
    using file_delete_true[of env i st w] by (rule impI)
  have 3: "map_has i (f_map st) \<and> (f_mode st = ''immediate'' \<longrightarrow> write_succeeds env) \<longrightarrow>
      fst (FileStorage_deleteTodo env i st w) = Inr True"
    using file_delete_present[of i st env w] by simp
  have 5: "s_inited sst \<and> table sst sw = Inr (h, rows) \<and> get_err env = None \<and>
      run_err env = None \<longrightarrow>
      (i \<notin> row_ids rows \<longrightarrow>
         SqliteFileStorage_getTodoById env i sst sw = (Inr None, sst, sw) \<and>
         SqliteFileStorage_updateTodo env i p sst sw = (Inr None, sst, sw) \<and>
         SqliteFileStorage_deleteTodo env i sst sw = (Inr False, sst, sw)) \<and>
      (case SqliteFileStorage_deleteTodo env i sst sw of (r, sst', sw') \<Rightarrow>
         r = Inr (i \<in> row_ids rows) \<and> sst' = sst \<and>
         table sst sw' = Inr (h, filter (\<lambda>r. col_id r \<noteq> i) rows) \<and>
         fst (SqliteFileStorage_getTodoById env i sst' sw') = Inr None)"
    using 4 by (intro impI) (elim conjE)
  show ?thesis by (intro conjI 1 2 3 5)
qed


lemma sample_file_has:
  "map_has ''u1'' (f_map (sample_file m))" "\<not> map_has ''no-such'' (f_map (sample_file m))"
  by (simp_all add: map_has_def sample_file_def)

theorem not_found_sentinels_witness:
  "FileStorage_getTodoById ''no-such'' (sample_file ''onClose'') Map.empty =
     (Inr None, FileStorage_ensureInit (sample_file ''onClose''), Map.empty) \<and>
   FileStorage_updateTodo env_three ''no-such'' patch_done (sample_file ''onClose'') Map.empty =
     (Inr None, FileStorage_ensureInit (sample_file ''onClose''), Map.empty) \<and>
   FileStorage_deleteTodo env_three ''no-such'' (sample_file ''onClose'') Map.empty =
     (Inr False, FileStorage_ensureInit (sample_file ''onClose''), Map.empty) \<and>
   fst (FileStorage_deleteTodo env_three ''u1'' (sample_file ''onClose'') Map.empty) = Inr True \<and>
   SqliteFileStorage_getTodoById env_three ''no-such'' sample_sqlite sample_db =
     (Inr None, sample_sqlite, sample_db) \<and>
   SqliteFileStorage_updateTodo env_three ''no-such'' patch_done sample_sqlite sample_db =
     (Inr None, sample_sqlite, sample_db) \<and>
   SqliteFileStorage_deleteTodo env_three ''no-such'' sample_sqlite sample_db =
     (Inr False, sample_sqlite, sample_db) \<and>
   fst (SqliteFileStorage_deleteTodo env_three ''u1'' sample_sqlite sample_db) = Inr True"
proof -
  note A = not_found_sentinels[where i = "''no-such''" and env = env_three and p = patch_done
      and st = "sample_file ''onClose''" and w = Map.empty and sst = sample_sqlite
      and sw = sample_db and h = sample_db_path and rows = "[row_two, row_one]"]
  note B = not_found_sentinels[where i = "''u1''" and env = env_three and p = patch_done
      and st = "sample_file ''onClose''" and w = Map.empty and sst = sample_sqlite
      and sw = sample_db and h = sample_db_path and rows = "[row_two, row_one]"]
  have d: "f_mode (sample_file ''onClose'') = ''immediate'' \<longrightarrow> write_succeeds env_three"
    by (simp add: sample_file_def)
  have ids: "''no-such'' \<notin> row_ids [row_two, row_one]" "''u1'' \<in> row_ids [row_two, row_one]"
    by (simp_all add: sample_row_ids)
  from A sample_file_has(2)
  have 1: "FileStorage_getTodoById ''no-such'' (sample_file ''onClose'') Map.empty =
     (Inr None, FileStorage_ensureInit (sample_file ''onClose''), Map.empty) \<and>
   FileStorage_updateTodo env_three ''no-such'' patch_done (sample_file ''onClose'') Map.empty =
     (Inr None, FileStorage_ensureInit (sample_file ''onClose''), Map.empty) \<and>
   FileStorage_deleteTodo env_three ''no-such'' (sample_file ''onClose'') Map.empty =
     (Inr False, FileStorage_ensureInit (sample_file ''onClose''), Map.empty)"
    by blast
  from B sample_file_has(1) d
  have 2: "fst (FileStorage_deleteTodo env_three ''u1'' (sample_file ''onClose'') Map.empty) =
     Inr True" by blast
  from A sample_sqlite_inited sample_table env_three_fields(3,4) ids(1)
  have 3: "SqliteFileStorage_getTodoById env_three ''no-such'' sample_sqlite sample_db =
     (Inr None, sample_sqlite, sample_db) \<and>
   SqliteFileStorage_updateTodo env_three ''no-such'' patch_done sample_sqlite sample_db =
     (Inr None, sample_sqlite, sample_db) \<and>
   SqliteFileStorage_deleteTodo env_three ''no-such'' sample_sqlite sample_db =
     (Inr False, sample_sqlite, sample_db)"
    by blast
  from B sample_sqlite_inited sample_table env_three_fields(3,4)
  have "case SqliteFileStorage_deleteTodo env_three ''u1'' sample_sqlite sample_db of
      (r, sst', sw') \<Rightarrow> r = Inr (''u1'' \<in> row_ids [row_two, row_one])"
    by (auto split: prod.splits)
  then have 4: "fst (SqliteFileStorage_deleteTodo env_three ''u1'' sample_sqlite sample_db) =
     Inr True" using ids(2) by (auto split: prod.splits)
  show ?thesis using 1 2 3 4 by simp
qed

section \<open>Listing and pagination\<close>

lemma slice_nonneg:
  assumes "0 \<le> off" "0 \<le> l"
  shows "slice xs off (off + l) = slice_range (nat off) (nat l) xs"
proof -
  let ?n = "length xs"
  have k: "slice_index ?n off = min (nat off) ?n" using assms by (simp add: slice_index_def)
  have f: "slice_index ?n (off + l) = min (nat off + nat l) ?n"
    using assms by (simp add: slice_index_def nat_add_distrib)
  have "take (min (nat off + nat l) ?n - min (nat off) ?n) (drop (min (nat off) ?n) xs) =
        take (nat l) (drop (nat off) xs)"
  proof (cases "nat off \<le> ?n")
    case True
    then have m: "min (nat off) ?n = nat off" by simp
    show ?thesis
    proof (cases "nat off + nat l \<le> ?n")
      case True
      then show ?thesis using m by simp
    next
      case False
      then have "min (nat off + nat l) ?n = ?n" by simp
      moreover have "length (drop (nat off) xs) \<le> nat l" using False by simp
      ultimately show ?thesis using m by simp
    qed
  next
    case False
    then show ?thesis by simp
  qed
  then show ?thesis by (simp add: slice_def slice_range_def k f Let_def)
qed

lemma sql_limit_nonneg:
  "0 \<le> l \<Longrightarrow> sql_limit l off xs = slice_range (nat off) (nat l) xs"
  by (simp add: sql_limit_def slice_range_def Let_def)

lemma rowToTodo_createdAt: "createdAt (rowToTodo r) = created_at r"
  by (simp add: rowToTodo_def)

lemma map_sort_key_rowToTodo:
  "map rowToTodo (sort_key created_at rows) = sort_key createdAt (map rowToTodo rows)"
proof -
  have ins: "map rowToTodo (insort_key created_at r rs) =
             insort_key createdAt (rowToTodo r) (map rowToTodo rs)" for r rs
    by (induction rs) (simp_all add: rowToTodo_createdAt)
  show ?thesis by (induction rows) (simp_all add: ins)
qed

text \<open>
  C6. \<^verbatim>\<open>getAllTodos()\<close> without a limit returns all the records held, in ascending
  \<^verbatim>\<open>createdAt\<close> order, and for every limit \<open>L \<ge> 0\<close> and offset \<open>O \<ge> 0\<close>,
  \<^verbatim>\<open>getAllTodos({limit: L, offset: O})\<close> returns the slice \<open>[O, O + L)\<close> of that list.
  This holds on the File Backend and on the initialised Relational Backend (with an
  engine that reports no failure).
\<close>

theorem getAllTodos_ordered_pages:
  "fst (FileStorage_getAllTodos None off st w) = Inr (file_listing st w) \<and>
   sorted (map createdAt (file_listing st w)) \<and>
   mset (file_listing st w) = mset (map_values (f_map st)) \<and>
   (0 \<le> l \<and> 0 \<le> off \<longrightarrow>
      fst (FileStorage_getAllTodos (Some l) off st w) =
        Inr (slice_range (nat off) (nat l) (file_listing st w))) \<and>
   (s_inited sst \<and> table sst sw = Inr (h, rows) \<and> all_err env = None \<longrightarrow>
      fst (SqliteFileStorage_getAllTodos env None off sst sw) = Inr (sqlite_listing env sst sw) \<and>
      sorted (map createdAt (sqlite_listing env sst sw)) \<and>
      mset (sqlite_listing env sst sw) = mset (map rowToTodo rows) \<and>
      (0 \<le> l \<and> 0 \<le> off \<longrightarrow>
         fst (SqliteFileStorage_getAllTodos env (Some l) off sst sw) =
           Inr (slice_range (nat off) (nat l) (sqlite_listing env sst sw))))"
proof -
  have 1: "fst (FileStorage_getAllTodos None off st w) = Inr (file_listing st w)"
    by (simp add: getAllTodos_all file_listing_eq)
  have 2: "sorted (map createdAt (file_listing st w))"
    by (simp add: file_listing_eq)
  have 3: "mset (file_listing st w) = mset (map_values (f_map st))"
    by (simp add: file_listing_eq)
  have 4: "0 \<le> l \<and> 0 \<le> off \<longrightarrow>
      fst (FileStorage_getAllTodos (Some l) off st w) =
        Inr (slice_range (nat off) (nat l) (file_listing st w))"
    by (simp add: FileStorage_getAllTodos_def Let_def file_listing_eq slice_nonneg)
  have 5: "s_inited sst \<and> table sst sw = Inr (h, rows) \<and> all_err env = None \<longrightarrow>
      fst (SqliteFileStorage_getAllTodos env None off sst sw) = Inr (sqlite_listing env sst sw) \<and>
      sorted (map createdAt (sqlite_listing env sst sw)) \<and>
      mset (sqlite_listing env sst sw) = mset (map rowToTodo rows) \<and>
      (0 \<le> l \<and> 0 \<le> off \<longrightarrow>
         fst (SqliteFileStorage_getAllTodos env (Some l) off sst sw) =
           Inr (slice_range (nat off) (nat l) (sqlite_listing env sst sw)))"
  proof (intro impI, elim conjE)
    assume a: "s_inited sst" "table sst sw = Inr (h, rows)" "all_err env = None"
    have l: "sqlite_listing env sst sw = sort_key createdAt (map rowToTodo rows)"
      by (simp add: sqlite_listing_eq[OF a] map_sort_key_rowToTodo)
    have p: "0 \<le> l \<and> 0 \<le> off \<longrightarrow>
         fst (SqliteFileStorage_getAllTodos env (Some l) off sst sw) =
           Inr (slice_range (nat off) (nat l) (sqlite_listing env sst sw))"
      by (simp add: sq_getAllTodos_page[OF a] sql_limit_nonneg sqlite_listing_eq[OF a]
            slice_range_def take_map drop_map)
    show "fst (SqliteFileStorage_getAllTodos env None off sst sw) = Inr (sqlite_listing env sst sw) \<and>
      sorted (map createdAt (sqlite_listing env sst sw)) \<and>
      mset (sqlite_listing env sst sw) = mset (map rowToTodo rows) \<and>
      (0 \<le> l \<and> 0 \<le> off \<longrightarrow>
         fst (SqliteFileStorage_getAllTodos env (Some l) off sst sw) =
           Inr (slice_range (nat off) (nat l) (sqlite_listing env sst sw)))"
      using p by (simp add: l sq_getAllTodos_all[OF a] map_sort_key_rowToTodo)
  qed
  show ?thesis by (intro conjI 1 2 3 4 5)
qed

lemma rowToTodo_samples: "rowToTodo row_one = todo_one" "rowToTodo row_two = todo_two"
  by (simp_all add: rowToTodo_def row_one_def row_two_def todo_one_def todo_two_def)

theorem getAllTodos_ordered_pages_witness:
  "fst (FileStorage_getAllTodos None 0 (sample_file ''onClose'') Map.empty) =
     Inr [todo_one, todo_two] \<and>
   fst (FileStorage_getAllTodos (Some 1) 1 (sample_file ''onClose'') Map.empty) =
     Inr [todo_two] \<and>
   fst (SqliteFileStorage_getAllTodos env_three None 0 sample_sqlite sample_db) =
     Inr [todo_one, todo_two] \<and>
   fst (SqliteFileStorage_getAllTodos env_three (Some 1) 1 sample_sqlite sample_db) =
     Inr [todo_two]"
proof -
  note G = getAllTodos_ordered_pages[where st = "sample_file ''onClose''" and w = Map.empty
      and l = 1 and off = 1 and env = env_three and sst = sample_sqlite and sw = sample_db
      and h = sample_db_path and rows = "[row_two, row_one]"]
  note G0 = getAllTodos_ordered_pages[where st = "sample_file ''onClose''" and w = Map.empty
      and l = 1 and off = 0 and env = env_three and sst = sample_sqlite and sw = sample_db
      and h = sample_db_path and rows = "[row_two, row_one]"]
  have fl: "file_listing (sample_file ''onClose'') Map.empty = [todo_one, todo_two]"
    by (simp add: file_listing_eq sample_file_def map_values_def todo_one_def todo_two_def)
  have sl: "sqlite_listing env_three sample_sqlite sample_db = [todo_one, todo_two]"
    by (simp add: sqlite_listing_eq[OF sample_sqlite_inited sample_table] env_three_fields
          row_one_def row_two_def rowToTodo_def todo_one_def todo_two_def)
  from G0 have 1: "fst (FileStorage_getAllTodos None 0 (sample_file ''onClose'') Map.empty) =
     Inr (file_listing (sample_file ''onClose'') Map.empty)" by blast
  from G have 2: "fst (FileStorage_getAllTodos (Some 1) 1 (sample_file ''onClose'') Map.empty) =
     Inr (slice_range (nat 1) (nat 1) (file_listing (sample_file ''onClose'') Map.empty))"
    by simp
  from G0 sample_sqlite_inited sample_table env_three_fields(5)
  have 3: "fst (SqliteFileStorage_getAllTodos env_three None 0 sample_sqlite sample_db) =
     Inr (sqlite_listing env_three sample_sqlite sample_db)" by blast
  from G sample_sqlite_inited sample_table env_three_fields(5)
  have 4: "fst (SqliteFileStorage_getAllTodos env_three (Some 1) 1 sample_sqlite sample_db) =
     Inr (slice_range (nat 1) (nat 1) (sqlite_listing env_three sample_sqlite sample_db))"
    by simp
  show ?thesis using 1 2 3 4 by (simp add: fl sl slice_range_def)
qed

section \<open>Titles along call sequences\<close>

lemma titles_ok_subset: "set xs \<subseteq> set ys \<Longrightarrow> titles_ok ys \<Longrightarrow> titles_ok xs"
  by (auto simp: titles_ok_def list_all_iff)

lemma titles_ok_set: "titles_ok xs \<longleftrightarrow> (\<forall>t \<in> set xs. \<not> blank (title t))"
  by (simp add: titles_ok_def list_all_iff)

lemma set_values_map_set: "set (map_values (map_set k v m)) \<subseteq> insert v (set (map_values m))"
  by (induction m) (auto simp: map_values_def)

lemma set_values_map_delete: "set (map_values (map_delete k m)) \<subseteq> set (map_values m)"
  by (auto simp: map_values_def map_delete_def)

lemma set_slice: "set (slice xs a b) \<subseteq> set xs"
  by (auto simp: slice_def Let_def dest: in_set_takeD in_set_dropD)

lemma set_sql_limit: "set (sql_limit l off xs) \<subseteq> set xs"
  by (auto simp: sql_limit_def Let_def dest: in_set_takeD in_set_dropD)

lemma titles_ok_map_set:
  "titles_ok (map_values m) \<Longrightarrow> \<not> blank (title v) \<Longrightarrow> titles_ok (map_values (map_set k v m))"
  using set_values_map_set[of k v m] by (auto simp: titles_ok_set)

lemma titles_ok_map_delete:
  "titles_ok (map_values m) \<Longrightarrow> titles_ok (map_values (map_delete k m))"
  using set_values_map_delete[of k m] by (auto simp: titles_ok_set)

lemma new_todo_title_ok: "\<not> title_rejected (Some d) \<Longrightarrow> \<not> blank (title (new_todo env d))"
  by (auto simp: title_rejected_def new_todo_def split: jsval.splits)

lemma merged_title_ok:
  "patch_title_ok p \<Longrightarrow> \<not> blank (title old) \<Longrightarrow> \<not> blank (title (merged env p old))"
  by (auto simp: patch_title_ok_def split: jsval.splits)

lemma write_if_immediate_map:
  "write_if_immediate env r st w = (res, st', w') \<Longrightarrow>
   f_map st' = f_map st \<and> (res = Inr r \<or> (\<exists>e. res = Inl (MediumError e)))"
  using write_if_immediate_cases[of env r st w] by auto

lemma file_step_titles:
  assumes "mutation_ok c" "titles_ok (map_values (f_map st))"
    "Database_FileStorage env c st w = (r, st', w')"
  shows "titles_ok (map_values (f_map st')) \<and> reply_titles_ok r"
proof (cases c)
  case Init
  then show ?thesis using assms by simp
next
  case Close
  then show ?thesis using assms by simp
next
  case (AddTodo d)
  show ?thesis
  proof (cases "title_rejected d")
    case True
    then show ?thesis using assms AddTodo by (auto simp: addTodo_rejected reply_with_def)
  next
    case False
    then obtain dd where d: "d = Some dd" by (cases d) (auto simp: title_rejected_def)
    let ?st1 = "(FileStorage_ensureInit st)
          \<lparr>f_map := map_set (uuid env) (new_todo env dd) (f_map st), f_dirty := True\<rparr>"
    obtain res st2 w2 where wi: "write_if_immediate env (new_todo env dd) ?st1 w = (res, st2, w2)"
      by (metis prod_cases3)
    from write_if_immediate_map[OF wi] have m: "f_map st2 = f_map ?st1"
      and rs: "res = Inr (new_todo env dd) \<or> (\<exists>e. res = Inl (MediumError e))" by auto
    have "titles_ok (map_values (f_map ?st1))"
      using assms(2) False d by (simp add: titles_ok_map_set new_todo_title_ok)
    then show ?thesis
      using assms(3) AddTodo d False wi m rs new_todo_title_ok[of dd env]
      by (auto simp: addTodo_accepted reply_with_def)
  qed
next
  case (GetAllTodos l off)
  have "titles_ok (sort_key createdAt (map_values (f_map st)))"
    using assms(2) by (simp add: titles_ok_set)
  moreover have "titles_ok (slice (sort_key createdAt (map_values (f_map st))) a b)" for a b
    using titles_ok_subset[OF set_slice calculation] .
  ultimately show ?thesis
    using assms GetAllTodos
    by (auto simp: FileStorage_getAllTodos_def Let_def reply_with_def split: option.splits)
next
  case (GetTodoById i)
  have "\<not> blank (title t)" if "map_get i (f_map st) = Some t" for t
    using map_get_in_values[OF that] assms(2) by (simp add: titles_ok_set)
  then show ?thesis
    using assms GetTodoById
    by (auto simp: getTodoById_eq reply_with_def todo_or_null_def split: option.splits)
next
  case (UpdateTodo i p)
  show ?thesis
  proof (cases "map_get i (f_map st)")
    case None
    then have "\<not> map_has i (f_map st)" by (simp add: map_has_get)
    then show ?thesis using assms UpdateTodo
      by (auto simp: updateTodo_absent reply_with_def todo_or_null_def)
  next
    case (Some old)
    let ?st1 = "(FileStorage_ensureInit st)
          \<lparr>f_map := map_set i (merged env p old) (f_map st), f_dirty := True\<rparr>"
    obtain res st2 w2 where wi:
      "write_if_immediate env (Some (merged env p old)) ?st1 w = (res, st2, w2)"
      by (metis prod_cases3)
    from write_if_immediate_map[OF wi] have m: "f_map st2 = f_map ?st1"
      and rs: "res = Inr (Some (merged env p old)) \<or> (\<exists>e. res = Inl (MediumError e))" by auto
    have o: "\<not> blank (title old)"
      using map_get_in_values[OF Some] assms(2) by (simp add: titles_ok_set)
    have t: "\<not> blank (title (merged env p old))"
      using merged_title_ok[OF _ o] assms(1) UpdateTodo by simp
    have "titles_ok (map_values (f_map ?st1))"
      using assms(2) t by (simp add: titles_ok_map_set)
    then show ?thesis
      using assms(3) UpdateTodo Some wi m rs t
      by (auto simp: updateTodo_present reply_with_def todo_or_null_def)
  qed
next
  case (DeleteTodo i)
  show ?thesis
  proof (cases "map_has i (f_map st)")
    case False
    then show ?thesis using assms DeleteTodo by (auto simp: deleteTodo_absent reply_with_def)
  next
    case True
    let ?st1 = "(FileStorage_ensureInit st)\<lparr>f_map := map_delete i (f_map st), f_dirty := True\<rparr>"
    obtain res st2 w2 where wi: "write_if_immediate env True ?st1 w = (res, st2, w2)"
      by (metis prod_cases3)
    from write_if_immediate_map[OF wi] have m: "f_map st2 = f_map ?st1"
      and rs: "res = Inr True \<or> (\<exists>e. res = Inl (MediumError e))" by auto
    have "titles_ok (map_values (f_map ?st1))"
      using assms(2) by (simp add: titles_ok_map_delete)
    then show ?thesis
      using assms(3) DeleteTodo True wi m rs
      by (auto simp: deleteTodo_present reply_with_def)
  qed
qed

lemma run_file_titles:
  "calls_ok cs \<Longrightarrow> titles_ok (map_values (f_map st)) \<Longrightarrow> run_file cs st w = (rs, st', w') \<Longrightarrow>
   list_all reply_titles_ok rs \<and> titles_ok (map_values (f_map st'))"
proof (induction cs arbitrary: st w rs st' w')
  case Nil
  then show ?case by simp
next
  case (Cons ec cs)
  obtain env c where ec: "ec = (env, c)" by (cases ec)
  obtain r st1 w1 where s: "Database_FileStorage env c st w = (r, st1, w1)"
    by (metis prod_cases3)
  obtain rs2 st2 w2 where t: "run_file cs st1 w1 = (rs2, st2, w2)" by (metis prod_cases3)
  from Cons.prems(1) have ok: "mutation_ok c" "calls_ok cs" by (simp_all add: calls_ok_def ec)
  from file_step_titles[OF ok(1) Cons.prems(2) s]
  have 1: "titles_ok (map_values (f_map st1))" "reply_titles_ok r" by auto
  from Cons.IH[OF ok(2) 1(1) t] Cons.prems(3) 1(2) show ?case
    by (auto simp: ec s t)
qed


lemma table_handle:
  assumes "table st w = Inr (h, rows)" "handle_ok st"
  shows "h = s_filepath st \<and> s_db st = Some h \<and> stored_rows st w = rows \<and>
         (\<forall>rows'. stored_rows st (w(h \<mapsto> rows')) = rows')"
  using assms by (auto simp: table_def handle_ok_def stored_rows_def split: option.splits)

lemma titles_ok_map_subset:
  "set xs \<subseteq> set ys \<Longrightarrow> titles_ok (map f ys) \<Longrightarrow> titles_ok (map f xs)"
  by (auto simp: titles_ok_set)

lemma sqlite_step_titles:
  assumes "mutation_ok c" "handle_ok st" "titles_ok (map rowToTodo (stored_rows st w))"
    "Database_SqliteFileStorage env c st w = (r, st', w')"
  shows "handle_ok st' \<and> titles_ok (map rowToTodo (stored_rows st' w')) \<and> reply_titles_ok r"
proof (cases "s_inited st")
  case False
  then show ?thesis using assms
    by (cases c)
       (auto simp: reply_with_def SqliteFileStorage_addTodo_def SqliteFileStorage_getAllTodos_def
          SqliteFileStorage_getTodoById_def SqliteFileStorage_updateTodo_def
          SqliteFileStorage_deleteTodo_def)
next
  case True
  note ini = this
  show ?thesis
  proof (cases "table st w")
    case (Inl e)
    then show ?thesis using assms ini
      by (cases c)
         (auto simp: reply_with_def SqliteFileStorage_addTodo_def SqliteFileStorage_getAllTodos_def
            SqliteFileStorage_getTodoById_def SqliteFileStorage_updateTodo_def
            SqliteFileStorage_deleteTodo_def sql_insert_def sql_select_all_def
            sql_select_by_id_def sql_update_def sql_delete_def Let_def
            split: option.splits jsval.splits if_splits)
  next
    case (Inr hr)
    obtain h rows where hr: "hr = (h, rows)" by (cases hr)
    note t = Inr[unfolded hr]
    from table_handle[OF t assms(2)] have sr: "stored_rows st w = rows"
      and upd: "\<And>rows'. stored_rows st (w(h \<mapsto> rows')) = rows'" by auto
    have inv: "titles_ok (map rowToTodo rows)" using assms(3) sr by simp
    show ?thesis
    proof (cases c)
      case Init
      then show ?thesis using assms by simp
    next
      case Close
      then show ?thesis using assms by simp
    next
      case (AddTodo d)
      show ?thesis
      proof (cases "title_rejected d")
        case True
        then show ?thesis using assms AddTodo ini
          by (auto simp: sq_addTodo_rejected reply_with_def)
      next
        case False
        then obtain dd where d: "d = Some dd" by (cases d) (auto simp: title_rejected_def)
        have nt: "\<not> blank (title (new_todo env dd))"
          using False d new_todo_title_ok by simp
        have "titles_ok (map rowToTodo (rows @ [todo_row (new_todo env dd)]))"
          using inv nt by (simp add: titles_ok_def)
        then show ?thesis
          using assms(2,3,4) AddTodo d False ini t upd nt
          by (auto simp: sq_addTodo_accepted reply_with_def sql_insert_def
                split: sum.splits option.splits if_splits)
      qed
    next
      case (GetAllTodos l off)
      have a: "titles_ok (map rowToTodo (sort_key created_at rows))"
        using inv by (simp add: titles_ok_set)
      have b: "titles_ok (map rowToTodo (sql_limit x y (sort_key created_at rows)))" for x y
        using titles_ok_map_subset[OF set_sql_limit a] .
      show ?thesis
        using assms(2,3,4) GetAllTodos ini t a b
        by (auto simp: SqliteFileStorage_getAllTodos_def sql_select_all_def reply_with_def
              split: option.splits)
    next
      case (GetTodoById i)
      have "\<not> blank (title (rowToTodo x))" if "find (\<lambda>r. col_id r = i) rows = Some x" for x
        using find_col_id_Some[OF that] inv by (simp add: titles_ok_set)
      then show ?thesis
        using assms(2,3,4) GetTodoById ini t
        by (auto simp: SqliteFileStorage_getTodoById_def sql_select_by_id_def reply_with_def
              todo_or_null_def split: option.splits)
    next
      case (UpdateTodo i p)
      show ?thesis
      proof (cases "get_err env")
        case (Some e)
        then show ?thesis using assms(2,3,4) UpdateTodo ini t
          by (auto simp: SqliteFileStorage_updateTodo_def SqliteFileStorage_getTodoById_def
                sql_select_by_id_def reply_with_def)
      next
        case None
        note g = this
        show ?thesis
        proof (cases "find (\<lambda>r. col_id r = i) rows")
          case None
          then have "i \<notin> row_ids rows" by (simp add: find_col_id_None)
          from sq_updateTodo_absent[OF ini t g this] show ?thesis
            using assms(2,3,4) UpdateTodo by (auto simp: reply_with_def todo_or_null_def)
        next
          case (Some x)
          have o: "\<not> blank (title (rowToTodo x))"
            using find_col_id_Some[OF Some] inv by (simp add: titles_ok_set)
          have m: "\<not> blank (title (merged env p (rowToTodo x)))"
            using merged_title_ok[OF _ o] assms(1) UpdateTodo by simp
          let ?rows = "map (\<lambda>y. if col_id y = i
              then update_row (merged env p (rowToTodo x)) y else y) rows"
          have "titles_ok (map rowToTodo ?rows)"
            using inv m by (auto simp: titles_ok_set rowToTodo_def update_row_def)
          then show ?thesis
          proof (cases "run_err env")
            case None
            from sq_updateTodo_present[OF ini t g None Some, of p]
            show ?thesis
              using \<open>titles_ok (map rowToTodo ?rows)\<close> assms(2,4) UpdateTodo upd m
              by (auto simp: reply_with_def todo_or_null_def)
          next
            case (Some e)
            then show ?thesis
              using assms(2,3,4) UpdateTodo ini t g \<open>find (\<lambda>r. col_id r = i) rows = Some x\<close>
              by (auto simp: SqliteFileStorage_updateTodo_def sq_getTodoById_eq[OF ini t g]
                    sql_update_def reply_with_def Let_def)
          qed
        qed
      qed
    next
      case (DeleteTodo i)
      have "titles_ok (map rowToTodo (filter (\<lambda>r. col_id r \<noteq> i) rows))"
        using inv by (auto simp: titles_ok_set)
      then show ?thesis
        using assms(2,3,4) DeleteTodo ini t upd
        by (auto simp: SqliteFileStorage_deleteTodo_def sql_delete_def reply_with_def
              split: option.splits)
    qed
  qed
qed

lemma run_sqlite_titles:
  "calls_ok cs \<Longrightarrow> handle_ok st \<Longrightarrow> titles_ok (map rowToTodo (stored_rows st w)) \<Longrightarrow>
   run_sqlite cs st w = (rs, st', w') \<Longrightarrow>
   list_all reply_titles_ok rs \<and> handle_ok st' \<and> titles_ok (map rowToTodo (stored_rows st' w'))"
proof (induction cs arbitrary: st w rs st' w')
  case Nil
  then show ?case by simp
next
  case (Cons ec cs)
  obtain env c where ec: "ec = (env, c)" by (cases ec)
  obtain r st1 w1 where s: "Database_SqliteFileStorage env c st w = (r, st1, w1)"
    by (metis prod_cases3)
  obtain rs2 st2 w2 where t: "run_sqlite cs st1 w1 = (rs2, st2, w2)" by (metis prod_cases3)
  from Cons.prems(1) have ok: "mutation_ok c" "calls_ok cs" by (simp_all add: calls_ok_def ec)
  from sqlite_step_titles[OF ok(1) Cons.prems(2,3) s]
  have 1: "handle_ok st1" "titles_ok (map rowToTodo (stored_rows st1 w1))" "reply_titles_ok r"
    by auto
  from Cons.IH[OF ok(2) 1(1,2) t] Cons.prems(4) 1(3) show ?case
    by (auto simp: ec s t)
qed

lemma sqlite_listing_titles:
  assumes "handle_ok st" "titles_ok (map rowToTodo (stored_rows st w))"
  shows "titles_ok (sqlite_listing env st w)"
proof (cases "fst (SqliteFileStorage_getAllTodos env None 0 st w)")
  case (Inl e)
  then show ?thesis by (simp add: sqlite_listing_def titles_ok_def)
next
  case (Inr ts)
  then obtain h rows where t: "table st w = Inr (h, rows)"
    and ts: "ts = map rowToTodo (sort_key created_at rows)"
    by (auto simp: SqliteFileStorage_getAllTodos_def sql_select_all_def
             split: if_splits sum.splits option.splits)
  from table_handle[OF t assms(1)] assms(2) have "titles_ok (map rowToTodo rows)" by simp
  then have "titles_ok ts" by (simp add: ts titles_ok_set)
  then show ?thesis using Inr by (simp add: sqlite_listing_def)
qed

text \<open>
  C2, as amended. Along any interleaving of \<^verbatim>\<open>addTodo\<close>, \<^verbatim>\<open>updateTodo\<close> and
  \<^verbatim>\<open>deleteTodo\<close> (with reads in between) in which no patch carries a blank string
  title, starting from a store whose titles are non-blank (the empty store in
  particular), every record returned by \<^verbatim>\<open>getAllTodos\<close> or by any other call has a
  non-blank title, and so has every record listed at the end. This holds on both
  backends, whatever the medium does. Blank means empty or made of nothing but white
  space and line terminators, the non-ASCII ones included: what \<^verbatim>\<open>trim\<close> reduces to the
  empty string.
\<close>

theorem titles_stay_non_blank:
  assumes "calls_ok cs"
  shows "(titles_ok (map_values (f_map st)) \<longrightarrow>
      (case run_file cs st w of (rs, st', w') \<Rightarrow>
         list_all reply_titles_ok rs \<and> titles_ok (file_listing st' w'))) \<and>
    (handle_ok sst \<and> titles_ok (map rowToTodo (stored_rows sst sw)) \<longrightarrow>
      (case run_sqlite cs sst sw of (rs, sst', sw') \<Rightarrow>
         list_all reply_titles_ok rs \<and> titles_ok (sqlite_listing env sst' sw')))"
proof (intro conjI impI)
  assume a: "titles_ok (map_values (f_map st))"
  obtain rs st' w' where r: "run_file cs st w = (rs, st', w')" by (metis prod_cases3)
  from run_file_titles[OF assms a r]
  show "case run_file cs st w of (rs, st', w') \<Rightarrow>
         list_all reply_titles_ok rs \<and> titles_ok (file_listing st' w')"
    by (simp add: r file_listing_eq titles_ok_set)
next
  assume a: "handle_ok sst \<and> titles_ok (map rowToTodo (stored_rows sst sw))"
  obtain rs st' w' where r: "run_sqlite cs sst sw = (rs, st', w')" by (metis prod_cases3)
  from run_sqlite_titles[OF assms _ _ r] a
  have "list_all reply_titles_ok rs \<and> handle_ok st' \<and>
     titles_ok (map rowToTodo (stored_rows st' w'))" by blast
  then show "case run_sqlite cs sst sw of (rs, sst', sw') \<Rightarrow>
         list_all reply_titles_ok rs \<and> titles_ok (sqlite_listing env sst' sw')"
    by (simp add: r sqlite_listing_titles)
qed

lemma run_file_blank:
  "fst (run_file [(env_three, AddTodo (Some data_three)),
                  (env_three, UpdateTodo ''u3'' patch_empty_title),
                  (env_three, GetAllTodos None 0)] fresh_file Map.empty) =
     [Inr (RTodo todo_three), Inr (RTodo todo_untitled), Inr (RTodos [todo_untitled])]"
  by (simp add: FileStorage_addTodo_def FileStorage_updateTodo_def FileStorage_getAllTodos_def
        FileStorage_ensureInit_def write_if_immediate_def reply_with_def todo_or_null_def
        fresh_file_def env_three_def ok_env_def data_three_def patch_empty_title_def
        todo_three_def todo_untitled_def trim_blank blank_def lead_length_def
        js_whitespace_def map_get_def map_values_def Let_def)

lemma run_sqlite_blank:
  "fst (run_sqlite [(env_three, Init), (env_three, AddTodo (Some data_three)),
                    (env_three, UpdateTodo ''u3'' patch_empty_title),
                    (env_three, GetAllTodos None 0)] fresh_sqlite Map.empty) =
     [Inr RVoid, Inr (RTodo todo_three), Inr (RTodo todo_untitled), Inr (RTodos [todo_untitled])]"
  by (simp add: SqliteFileStorage_init_def SqliteFileStorage_addTodo_def
        SqliteFileStorage_updateTodo_def SqliteFileStorage_getAllTodos_def
        SqliteFileStorage_getTodoById_def sql_insert_def sql_select_all_def sql_select_by_id_def
        sql_update_def table_def rowToTodo_def reply_with_def todo_or_null_def
        fresh_sqlite_def env_three_def ok_env_def data_three_def patch_empty_title_def
        todo_three_def todo_untitled_def trim_blank blank_def lead_length_def
        js_whitespace_def Let_def)


theorem titles_stay_non_blank_witness:
  "calls_ok [(env_three, AddTodo (Some data_nbsp)), (env_three, AddTodo (Some data_three)),
             (env_three, UpdateTodo ''u3'' patch_done), (env_three, GetAllTodos None 0)] \<and>
   (case run_file [(env_three, AddTodo (Some data_nbsp)),
                   (env_three, AddTodo (Some data_three)),
                   (env_three, UpdateTodo ''u3'' patch_done),
                   (env_three, GetAllTodos None 0)] fresh_file Map.empty of
      (rs, st', w') \<Rightarrow> list_all reply_titles_ok rs \<and> titles_ok (file_listing st' w')) \<and>
   (case run_sqlite [(env_three, AddTodo (Some data_nbsp)),
                     (env_three, AddTodo (Some data_three)),
                     (env_three, UpdateTodo ''u3'' patch_done),
                     (env_three, GetAllTodos None 0)] sample_sqlite sample_db of
      (rs, sst', sw') \<Rightarrow> list_all reply_titles_ok rs \<and>
         titles_ok (sqlite_listing env_three sst' sw'))"
proof -
  have c: "calls_ok [(env_three, AddTodo (Some data_nbsp)),
      (env_three, AddTodo (Some data_three)),
      (env_three, UpdateTodo ''u3'' patch_done), (env_three, GetAllTodos None 0)]"
    by (simp add: calls_ok_def patch_title_ok_def patch_done_def)
  have f: "titles_ok (map_values (f_map fresh_file))"
    by (simp add: fresh_file_def map_values_def titles_ok_def)
  have h: "handle_ok sample_sqlite" by (simp add: handle_ok_def sample_sqlite_def)
  have r: "titles_ok (map rowToTodo (stored_rows sample_sqlite sample_db))"
    by (simp add: stored_rows_def sample_sqlite_def sample_db_def rowToTodo_def row_one_def
          row_two_def titles_ok_def blank_def lead_length_def js_whitespace_def)
  note T = titles_stay_non_blank[OF c, where st = fresh_file and w = Map.empty
      and sst = sample_sqlite and sw = sample_db and env = env_three]
  show ?thesis
    by (intro conjI c T[THEN conjunct1, THEN mp, OF f]
          T[THEN conjunct2, THEN mp, OF conjI[OF h r]])
qed

text \<open>
  C2, as stated, fails: \<^verbatim>\<open>updateTodo\<close> takes any string as the new title. After
  \<^verbatim>\<open>addTodo({title: "Three"})\<close> and \<^verbatim>\<open>updateTodo(id, {title: ""})\<close>, \<^verbatim>\<open>getAllTodos()\<close>
  returns a record with the empty title, on both backends.
\<close>

theorem blank_title_after_update:
  "fst (run_file [(env_three, AddTodo (Some data_three)),
                  (env_three, UpdateTodo ''u3'' patch_empty_title),
                  (env_three, GetAllTodos None 0)] fresh_file Map.empty) =
     [Inr (RTodo todo_three), Inr (RTodo todo_untitled), Inr (RTodos [todo_untitled])] \<and>
   fst (run_sqlite [(env_three, Init), (env_three, AddTodo (Some data_three)),
                    (env_three, UpdateTodo ''u3'' patch_empty_title),
                    (env_three, GetAllTodos None 0)] fresh_sqlite Map.empty) =
     [Inr RVoid, Inr (RTodo todo_three), Inr (RTodo todo_untitled), Inr (RTodos [todo_untitled])] \<and>
   title todo_untitled = [] \<and> blank (title todo_untitled)"
  using run_file_blank run_sqlite_blank by (simp add: todo_untitled_def blank_def)

section \<open>The file and the in-memory map\<close>

lemma keys_ok_Nil [simp]: "keys_ok []"
  by (simp add: keys_ok_def)

lemma keys_ok_ids: "keys_ok m \<Longrightarrow> map id' (map_values m) = map fst m"
  by (induction m) (auto simp: keys_ok_def map_values_def)

lemma keys_ok_entry: "keys_ok m \<Longrightarrow> (k, t) \<in> set m \<Longrightarrow> id' t = k"
  by (auto simp: keys_ok_def list_all_iff)

lemma map_set_fresh: "k \<notin> fst ` set m \<Longrightarrow> map_set k v m = m @ [(k, v)]"
  by (induction m) auto

lemma map_set_keys: "fst ` set (map_set k v m) = insert k (fst ` set m)"
  by (induction m) auto

lemma map_set_map_fst:
  "map fst (map_set k v m) = (if k \<in> fst ` set m then map fst m else map fst m @ [k])"
  by (induction m) auto

lemma list_all_map_set: "list_all P m \<Longrightarrow> P (k, v) \<Longrightarrow> list_all P (map_set k v m)"
  by (induction m) auto

lemma keys_ok_map_set: "keys_ok m \<Longrightarrow> id' v = k \<Longrightarrow> keys_ok (map_set k v m)"
  unfolding keys_ok_def
  by (auto simp: map_set_map_fst intro!: list_all_map_set)

lemma keys_ok_map_delete: "keys_ok m \<Longrightarrow> keys_ok (map_delete k m)"
  by (auto simp: keys_ok_def map_delete_def list_all_iff distinct_map_filter)

lemma keys_ok_load_items: "keys_ok m \<Longrightarrow> keys_ok (load_items items m)"
  by (induction items m rule: load_items.induct) (simp_all add: keys_ok_map_set)

lemma load_items_fresh:
  "distinct (map id' ts) \<Longrightarrow> id' ` set ts \<inter> fst ` set m = {} \<Longrightarrow>
   load_items (map Item ts) m = m @ map (\<lambda>t. (id' t, t)) ts"
proof (induction ts arbitrary: m)
  case Nil
  then show ?case by simp
next
  case (Cons t ts)
  have f: "id' t \<notin> fst ` set m" using Cons.prems(2) by auto
  have "id' ` set ts \<inter> fst ` set (m @ [(id' t, t)]) = {}"
    using Cons.prems by auto
  with Cons.IH[of "m @ [(id' t, t)]"] Cons.prems(1) f show ?case
    by (simp add: map_set_fresh)
qed

lemma keys_ok_sorted_ids:
  "keys_ok m \<Longrightarrow> distinct (map id' (sort_key createdAt (map_values m)))"
proof -
  assume k: "keys_ok m"
  then have "distinct (map id' (map_values m))" by (simp add: keys_ok_ids keys_ok_def)
  moreover have "mset (map id' (sort_key createdAt (map_values m))) = mset (map id' (map_values m))"
    by simp
  ultimately show ?thesis by (metis distinct_count_atmost_1[symmetric] mset_eq_imp_distinct_iff)
qed

lemma disk_map_written:
  assumes "keys_ok m" "w p = Some (Array layout (map Item (sort_key createdAt (map_values m))))"
  shows "map_values (disk_map w p) = sort_key createdAt (map_values m)"
proof -
  have "load_items (map Item (sort_key createdAt (map_values m))) [] =
        map (\<lambda>t. (id' t, t)) (sort_key createdAt (map_values m))"
    using load_items_fresh[OF keys_ok_sorted_ids[OF assms(1)], of "[]"] by simp
  then show ?thesis using assms(2) by (simp add: disk_map_def map_values_def comp_def)
qed

lemma synced_written:
  assumes "keys_ok (f_map st)"
    "w (f_filepath st) = Some (Array layout (map Item (sort_key createdAt (map_values (f_map st)))))"
  shows "synced st w"
  using disk_map_written[where m = "f_map st" and w = w and p = "f_filepath st", OF assms]
  by (simp add: synced_def sort_key_id_if_sorted)

lemma keys_ok_disk_map: "keys_ok (disk_map w p)"
  by (auto simp: disk_map_def keys_ok_load_items split: option.splits content.splits)

lemma init_result:
  assumes "\<not> f_inited st" "mkdir_err env = None" "read_err env = None"
  shows "\<exists>d. FileStorage_init env st w =
       (Inr (), st\<lparr>f_inited := True, f_map := disk_map w (f_filepath st), f_dirty := d\<rparr>, w)"
  using assms
  by (auto simp: FileStorage_init_def FileStorage_init_begin_def FileStorage_init_load_def readFile_def disk_map_def Let_def
           split: option.splits content.splits)

lemma close_result:
  assumes "f_inited st" "write_succeeds env" "keys_ok (f_map st)"
    "f_mode st = ''onClose'' \<or> f_mode st = ''immediate''"
    "f_mode st = ''immediate'' \<or> \<not> f_dirty st \<longrightarrow> synced st w"
  shows "\<exists>d w'. FileStorage_close env st w = (Inr (), st\<lparr>f_dirty := d, f_inited := False\<rparr>, w') \<and>
       synced st w'"
proof (cases "f_mode st = ''onClose'' \<and> f_dirty st")
  case True
  let ?w = "(w(tmpPath env (f_filepath st) := None))
        (f_filepath st \<mapsto>
           Array (f_pretty st) (map Item (sort_key createdAt (map_values (f_map st)))))"
  have wr: "FileStorage_writeToDisk env st w = (Inr (), st\<lparr>f_dirty := False\<rparr>, ?w)"
    using assms(2) by (simp add: writeToDisk_ok write_succeeds_def)
  have "synced st ?w" by (rule synced_written[OF assms(3)]) simp
  then show ?thesis using True assms(1) wr
    by (auto simp: FileStorage_close_def)
next
  case False
  then have "synced st w" using assms(4,5) by auto
  moreover have "FileStorage_close env st w = (Inr (), st\<lparr>f_inited := False\<rparr>, w)"
    using False assms(1) by (auto simp: FileStorage_close_def)
  moreover have "st\<lparr>f_inited := False\<rparr> = st\<lparr>f_dirty := f_dirty st, f_inited := False\<rparr>" by simp
  ultimately show ?thesis by metis
qed

lemma no_failure_write: "no_failure env \<Longrightarrow> write_succeeds env"
  by (simp add: no_failure_def write_succeeds_def)

lemma FileStorage_mode:
  "FileStorage opts = Inr st \<Longrightarrow> f_mode st = ''onClose'' \<or> f_mode st = ''immediate''"
  by (auto simp: FileStorage_def Let_def split: if_splits)

lemma write_if_immediate_inv:
  assumes "keys_ok (f_map st)" "f_mode st = ''onClose'' \<or> f_mode st = ''immediate''"
    "f_dirty st" "write_succeeds env"
  shows "\<exists>st' w'. write_if_immediate env r st w = (Inr r, st', w') \<and> file_inv st' w' \<and>
     f_map st' = f_map st \<and> f_inited st' = f_inited st \<and> f_filepath st' = f_filepath st \<and>
     f_mode st' = f_mode st"
proof (cases "f_mode st = ''immediate''")
  case True
  let ?w = "(w(tmpPath env (f_filepath st) := None))
        (f_filepath st \<mapsto>
           Array (f_pretty st) (map Item (sort_key createdAt (map_values (f_map st)))))"
  have wr: "FileStorage_writeToDisk env st w = (Inr (), st\<lparr>f_dirty := False\<rparr>, ?w)"
    using assms(4) by (simp add: writeToDisk_ok write_succeeds_def)
  have "synced st ?w" by (rule synced_written[OF assms(1)]) simp
  then have "synced (st\<lparr>f_dirty := False\<rparr>) ?w" by (simp add: synced_def)
  then have "file_inv (st\<lparr>f_dirty := False\<rparr>) ?w"
    using assms(1,2) by (simp add: file_inv_def)
  then show ?thesis using True wr by (simp add: write_if_immediate_def)
next
  case False
  then have "file_inv st w" using assms by (auto simp: file_inv_def)
  then show ?thesis using False by (simp add: write_if_immediate_deferred)
qed

lemma ensureInit_keeps [simp]: "f_inited st \<Longrightarrow> FileStorage_ensureInit st = st"
  by (simp add: FileStorage_ensureInit_def)

lemma init_inv:
  assumes "\<not> f_inited st" "f_mode st = ''onClose'' \<or> f_mode st = ''immediate''"
    "no_failure env"
  shows "\<exists>st'. FileStorage_init env st w = (Inr (), st', w) \<and> file_inv st' w \<and> f_inited st' \<and>
     f_map st' = disk_map w (f_filepath st) \<and> f_filepath st' = f_filepath st \<and>
     f_mode st' = f_mode st"
proof -
  from assms(3) have "mkdir_err env = None" "read_err env = None" by (simp_all add: no_failure_def)
  from init_result[OF assms(1) this, of w] obtain d where
    i: "FileStorage_init env st w =
       (Inr (), st\<lparr>f_inited := True, f_map := disk_map w (f_filepath st), f_dirty := d\<rparr>, w)"
    by blast
  show ?thesis
    using assms(2) by (simp add: i file_inv_def keys_ok_disk_map synced_def)
qed

lemma add_step_inv:
  assumes "file_inv st w" "f_inited st" "no_failure env"
  shows "\<exists>r st' w'. FileStorage_addTodo env d st w = (r, st', w') \<and> file_inv st' w' \<and>
     f_inited st' \<and> f_filepath st' = f_filepath st \<and> f_mode st' = f_mode st \<and>
     (title_rejected d \<longrightarrow> r = Inl ValidationError \<and> f_map st' = f_map st) \<and>
     (\<forall>dd. d = Some dd \<and> \<not> title_rejected d \<longrightarrow>
        r = Inr (new_todo env dd) \<and>
        f_map st' = map_set (uuid env) (new_todo env dd) (f_map st))"
proof (cases "title_rejected d")
  case True
  then show ?thesis using assms by (simp add: addTodo_rejected)
next
  case False
  then obtain dd where d: "d = Some dd" by (cases d) (auto simp: title_rejected_def)
  let ?st1 = "st\<lparr>f_map := map_set (uuid env) (new_todo env dd) (f_map st), f_dirty := True\<rparr>"
  have k: "keys_ok (f_map ?st1)"
    using assms(1) by (simp add: file_inv_def keys_ok_map_set new_todo_fields)
  have m: "f_mode ?st1 = ''onClose'' \<or> f_mode ?st1 = ''immediate''"
    using assms(1) by (simp add: file_inv_def)
  from write_if_immediate_inv[OF k m _ no_failure_write[OF assms(3)], of "new_todo env dd" w]
  obtain st' w' where "write_if_immediate env (new_todo env dd) ?st1 w = (Inr (new_todo env dd), st', w')"
    "file_inv st' w'" "f_map st' = f_map ?st1" "f_inited st' = f_inited ?st1"
    "f_filepath st' = f_filepath ?st1" "f_mode st' = f_mode ?st1" by auto
  then show ?thesis using False d assms(2) by (simp add: addTodo_accepted)
qed

lemma added_values_fresh:
  "keys_ok m \<Longrightarrow> k \<notin> fst ` set m \<Longrightarrow> map_values (map_set k v m) = map_values m @ [v]"
  by (simp add: map_set_fresh map_values_def)

lemma run_adds_inv:
  assumes "adds_only cs" "file_inv st w" "f_inited st" "run_file cs st w = (rs, st', w')"
  shows "file_inv st' w' \<and> f_inited st' \<and> f_filepath st' = f_filepath st \<and>
     f_mode st' = f_mode st \<and>
     (distinct (add_uuids cs) \<and> set (add_uuids cs) \<inter> file_ids st = {} \<longrightarrow>
        map_values (f_map st') = map_values (f_map st) @ added_todos rs)"
  using assms
proof (induction cs arbitrary: st w rs st' w')
  case Nil
  then show ?case by simp
next
  case (Cons ec cs)
  obtain env c where ec: "ec = (env, c)" by (cases ec)
  from Cons.prems(1) obtain d where c: "c = AddTodo d" and nf: "no_failure env"
    and rest: "adds_only cs"
    by (cases c) (auto simp: adds_only_def ec)
  from add_step_inv[OF Cons.prems(2,3) nf, of d] obtain r st1 w1 where
    a: "FileStorage_addTodo env d st w = (r, st1, w1)" and i1: "file_inv st1 w1"
    and in1: "f_inited st1" and p1: "f_filepath st1 = f_filepath st" "f_mode st1 = f_mode st"
    and rej: "title_rejected d \<longrightarrow> r = Inl ValidationError \<and> f_map st1 = f_map st"
    and acc: "\<forall>dd. d = Some dd \<and> \<not> title_rejected d \<longrightarrow>
        r = Inr (new_todo env dd) \<and>
        f_map st1 = map_set (uuid env) (new_todo env dd) (f_map st)"
    by blast
  obtain rs2 st2 w2 where t: "run_file cs st1 w1 = (rs2, st2, w2)" by (metis prod_cases3)
  have step: "Database_FileStorage env c st w =
      (case r of Inl e \<Rightarrow> Inl e | Inr t \<Rightarrow> Inr (RTodo t), st1, w1)"
    by (simp add: c a reply_with_def split: sum.splits)
  from Cons.prems(4) have res: "rs = (case r of Inl e \<Rightarrow> Inl e | Inr t \<Rightarrow> Inr (RTodo t)) # rs2"
      "st' = st2" "w' = w2"
    by (simp_all add: ec step t)
  note IH = Cons.IH[OF rest i1 in1 t]
  have u: "add_uuids (ec # cs) = uuid env # add_uuids cs" by (simp add: add_uuids_def ec c)
  have "map_values (f_map st2) = map_values (f_map st) @ added_todos rs"
    if fr: "distinct (add_uuids (ec # cs))" "set (add_uuids (ec # cs)) \<inter> file_ids st = {}"
  proof (cases "title_rejected d")
    case True
    with rej have r: "r = Inl ValidationError" and m: "f_map st1 = f_map st" by auto
    have "set (add_uuids cs) \<inter> file_ids st1 = {}" using fr(2) m by (auto simp: u file_ids_def)
    with IH fr(1) have "map_values (f_map st2) = map_values (f_map st1) @ added_todos rs2"
      by (simp add: u)
    then show ?thesis by (simp add: m res r)
  next
    case False
    then obtain dd where d: "d = Some dd" by (cases d) (auto simp: title_rejected_def)
    with acc False have r: "r = Inr (new_todo env dd)"
      and m: "f_map st1 = map_set (uuid env) (new_todo env dd) (f_map st)" by auto
    have k: "keys_ok (f_map st)" using Cons.prems(2) by (simp add: file_inv_def)
    have f: "uuid env \<notin> fst ` set (f_map st)" using fr(2) by (auto simp: u file_ids_def)
    have "file_ids st1 = insert (uuid env) (file_ids st)"
      by (simp add: file_ids_def m map_set_keys)
    then have "set (add_uuids cs) \<inter> file_ids st1 = {}" using fr by (auto simp: u)
    with IH fr(1) have "map_values (f_map st2) = map_values (f_map st1) @ added_todos rs2"
      by (simp add: u)
    then show ?thesis by (simp add: m res r added_values_fresh[OF k f])
  qed
  with IH p1 show ?case by (simp add: res)
qed

section \<open>Round trip through the file\<close>

text \<open>
  C8. A File Backend instance is constructed and initialised on any file system, any
  number of \<^verbatim>\<open>addTodo\<close> calls follow, and the instance is closed; a fresh instance
  constructed on the same path (in either mode) is then initialised. When the medium does
  not fail, all three steps succeed and the new instance lists exactly the records
  that the first one listed before it was closed, equal as records, so field by field.
  When the generated identifiers are distinct and new, these are the records the first
  instance loaded together with the records returned by the \<^verbatim>\<open>addTodo\<close> calls.
\<close>

theorem file_round_trip:
  assumes "FileStorage opts = Inr st0" "FileStorage opts' = Inr st0'"
    and "f_filepath st0' = f_filepath st0"
    and "no_failure e0" "adds_only cs" "no_failure ec" "no_failure ei"
    and "FileStorage_init e0 st0 w0 = (r1, st1, w1)"
    and "run_file cs st1 w1 = (rs, st2, w2)"
    and "FileStorage_close ec st2 w2 = (rc, st3, w3)"
    and "FileStorage_init ei st0' w3 = (ri, st4, w4)"
  shows "r1 = Inr () \<and> rc = Inr () \<and> ri = Inr () \<and>
     file_listing st4 w4 = file_listing st2 w2 \<and>
     (distinct (add_uuids cs) \<and> set (add_uuids cs) \<inter> file_ids st1 = {} \<longrightarrow>
        mset (file_listing st4 w4) = mset (file_listing st1 w1) + mset (added_todos rs))"
proof -
  from FileStorage_fresh[OF assms(1)] FileStorage_mode[OF assms(1)]
  have f0: "\<not> f_inited st0" "f_mode st0 = ''onClose'' \<or> f_mode st0 = ''immediate''" by auto
  from FileStorage_fresh[OF assms(2)] FileStorage_mode[OF assms(2)]
  have f0': "\<not> f_inited st0'" "f_mode st0' = ''onClose'' \<or> f_mode st0' = ''immediate''" by auto
  from init_inv[OF f0 assms(4), where w = w0] assms(8)
  have 1: "r1 = Inr ()" "file_inv st1 w1" "f_inited st1" "f_filepath st1 = f_filepath st0"
    by auto
  from run_adds_inv[OF assms(5) 1(2,3) assms(9)]
  have 2: "file_inv st2 w2" "f_inited st2" "f_filepath st2 = f_filepath st1"
    "distinct (add_uuids cs) \<and> set (add_uuids cs) \<inter> file_ids st1 = {} \<longrightarrow>
        map_values (f_map st2) = map_values (f_map st1) @ added_todos rs"
    by auto
  from 2(1) have k2: "keys_ok (f_map st2)"
    "f_mode st2 = ''onClose'' \<or> f_mode st2 = ''immediate''"
    "f_mode st2 = ''immediate'' \<or> \<not> f_dirty st2 \<longrightarrow> synced st2 w2"
    by (simp_all add: file_inv_def)
  from close_result[OF 2(2) no_failure_write[OF assms(6)] k2] assms(10)
  have 3: "rc = Inr ()" "synced st2 w3" by auto
  from init_inv[OF f0' assms(7), where w = w3] assms(11)
  have 4: "ri = Inr ()" "f_map st4 = disk_map w3 (f_filepath st0')" by auto
  have same: "file_listing st4 w4 = file_listing st2 w2"
    using 3(2) by (simp add: file_listing_eq 4(2) synced_def assms(3) 2(3) 1(4))
  have "mset (file_listing st4 w4) = mset (file_listing st1 w1) + mset (added_todos rs)"
    if d: "distinct (add_uuids cs) \<and> set (add_uuids cs) \<inter> file_ids st1 = {}"
  proof -
    have "mset (file_listing st4 w4) = mset (file_listing st2 w2)" by (simp only: same)
    also have "\<dots> = mset (map_values (f_map st2))" by (simp add: file_listing_eq)
    also have "\<dots> = mset (map_values (f_map st1)) + mset (added_todos rs)"
      using 2(4) d by simp
    also have "mset (map_values (f_map st1)) = mset (file_listing st1 w1)"
      by (simp add: file_listing_eq)
    finally show ?thesis .
  qed
  then show ?thesis using 1(1) 3(1) 4(1) same by blast
qed

lemma round_trip_init: "FileStorage_init env_three fresh_file Map.empty = (Inr (), file_after_init, Map.empty)"
  by (simp add: FileStorage_init_def FileStorage_init_begin_def FileStorage_init_load_def readFile_def fresh_file_def file_after_init_def
        env_three_def ok_env_def Let_def)

lemma round_trip_add:
  "run_file [(env_three, AddTodo (Some data_three))] file_after_init Map.empty =
     ([Inr (RTodo todo_three)], file_after_add, Map.empty)"
  by (simp add: FileStorage_addTodo_def FileStorage_ensureInit_def write_if_immediate_def
        reply_with_def fresh_file_def file_after_init_def file_after_add_def env_three_def
        ok_env_def data_three_def todo_three_def trim_blank blank_def lead_length_def js_whitespace_def Let_def)

lemma round_trip_close:
  "FileStorage_close env_three file_after_add Map.empty =
     (Inr (), file_after_add\<lparr>f_dirty := False, f_inited := False\<rparr>, disk_after_close)"
  by (simp add: FileStorage_close_def writeToDisk_ok env_three_fields fresh_file_def
        file_after_init_def file_after_add_def disk_after_close_def map_values_def)

lemma round_trip_reopen:
  "FileStorage_init env_three fresh_file disk_after_close =
     (Inr (), fresh_file\<lparr>f_inited := True, f_map := [(''u3'', todo_three)]\<rparr>, disk_after_close)"
  by (simp add: FileStorage_init_def FileStorage_init_begin_def FileStorage_init_load_def readFile_def fresh_file_def disk_after_close_def
        env_three_def ok_env_def Let_def todo_three_def)

theorem file_round_trip_witness:
  "FileStorage_init env_three fresh_file Map.empty = (Inr (), file_after_init, Map.empty) \<and>
   run_file [(env_three, AddTodo (Some data_three))] file_after_init Map.empty =
     ([Inr (RTodo todo_three)], file_after_add, Map.empty) \<and>
   FileStorage_close env_three file_after_add Map.empty =
     (Inr (), file_after_add\<lparr>f_dirty := False, f_inited := False\<rparr>, disk_after_close) \<and>
   FileStorage_init env_three fresh_file disk_after_close =
     (Inr (), fresh_file\<lparr>f_inited := True, f_map := [(''u3'', todo_three)]\<rparr>, disk_after_close) \<and>
   file_listing (fresh_file\<lparr>f_inited := True, f_map := [(''u3'', todo_three)]\<rparr>) disk_after_close =
     file_listing file_after_add Map.empty \<and>
   mset (file_listing (fresh_file\<lparr>f_inited := True, f_map := [(''u3'', todo_three)]\<rparr>)
          disk_after_close) = {#todo_three#}"
proof -
  have nf: "no_failure env_three" by (simp add: no_failure_def env_three_def ok_env_def)
  have ao: "adds_only [(env_three, AddTodo (Some data_three))]"
    by (simp add: adds_only_def nf)
  have d: "distinct (add_uuids [(env_three, AddTodo (Some data_three))]) \<and>
      set (add_uuids [(env_three, AddTodo (Some data_three))]) \<inter> file_ids file_after_init = {}"
    by (simp add: add_uuids_def file_ids_def file_after_init_def fresh_file_def)
  have l: "file_listing file_after_init Map.empty = []"
    by (simp add: file_listing_eq file_after_init_def fresh_file_def map_values_def)
  note R = file_round_trip[OF fresh_file_constructed fresh_file_constructed refl nf ao nf nf
      round_trip_init round_trip_add round_trip_close round_trip_reopen]
  from R have a: "file_listing (fresh_file\<lparr>f_inited := True, f_map := [(''u3'', todo_three)]\<rparr>)
      disk_after_close = file_listing file_after_add Map.empty" by blast
  from R d have "mset (file_listing
      (fresh_file\<lparr>f_inited := True, f_map := [(''u3'', todo_three)]\<rparr>) disk_after_close) =
      mset (file_listing file_after_init Map.empty) +
      mset (added_todos [Inr (RTodo todo_three)])" by blast
  then have b: "mset (file_listing
      (fresh_file\<lparr>f_inited := True, f_map := [(''u3'', todo_three)]\<rparr>) disk_after_close) =
      {#todo_three#}" by (simp only: l added_todos.simps mset.simps add_0)
  show ?thesis
    by (intro conjI round_trip_init round_trip_add round_trip_close round_trip_reopen a b)
qed

section \<open>The two backends side by side\<close>

lemma insort_key_map_preserving:
  assumes "\<And>t. c (g t) = c t"
  shows "insort_key c (g x) (map g xs) = map g (insort_key c x xs)"
  by (induction xs) (simp_all add: assms)

lemma sort_key_map_preserving:
  assumes "\<And>t. c (g t) = c t"
  shows "sort_key c (map g xs) = map g (sort_key c xs)"
  by (induction xs) (simp_all add: insort_key_map_preserving[where c = c and g = g, OF assms])

lemma sort_key_snoc_cong:
  assumes "sort_key c xs = sort_key c zs"
  shows "sort_key c (xs @ [x]) = sort_key c (zs @ [x])"
proof (rule properties_for_sort_key)
  have "mset xs = mset zs" using assms by (metis mset_sort)
  then show "mset (sort_key c (zs @ [x])) = mset (xs @ [x])" by simp
next
  fix k
  have grp: "filter (\<lambda>t. c t = c k) xs = filter (\<lambda>t. c t = c k) zs"
    using assms by (metis sort_key_stable)
  have "filter (\<lambda>t. c t = c k) (sort_key c (zs @ [x])) = filter (\<lambda>t. c t = c k) (xs @ [x])"
    by (simp only: sort_key_stable filter_append grp)
  then show "filter (\<lambda>t. c k = c t) (sort_key c (zs @ [x])) = filter (\<lambda>t. c k = c t) (xs @ [x])"
    by (simp add: eq_commute[of "c k"])
next
  show "sorted (map c (sort_key c (zs @ [x])))" by simp
qed

lemma values_map_set_present:
  assumes "keys_ok m" "map_get i m = Some old"
  shows "map_values (map_set i (f old) m) =
         map (\<lambda>t. if id' t = i then f t else t) (map_values m)"
  using assms
proof (induction m)
  case Nil
  then show ?case by (simp add: map_get_def)
next
  case (Cons kt m)
  obtain k t where kt: "kt = (k, t)" by (cases kt)
  from Cons.prems(1) have k: "id' t = k" "k \<notin> fst ` set m" "keys_ok m"
    by (auto simp: keys_ok_def kt)
  show ?case
  proof (cases "k = i")
    case True
    then have o: "old = t" using Cons.prems(2) by (simp add: map_get_def kt)
    have "id' t' \<noteq> i" if "t' \<in> set (map_values m)" for t'
    proof -
      from that obtain k' where "(k', t') \<in> set m" by (auto simp: map_values_def)
      with keys_ok_entry[OF k(3) this] k(2) True show ?thesis by force
    qed
    then have "map (\<lambda>t. if id' t = i then f t else t) (map_values m) = map_values m"
      by (simp add: map_idI)
    then show ?thesis using True o k(1) by (simp add: kt map_values_def)
  next
    case False
    then have "map_get i m = Some old" using Cons.prems(2) by (simp add: map_get_def kt)
    from Cons.IH[OF k(3) this] False k(1) show ?thesis by (simp add: kt map_values_def)
  qed
qed

lemma values_map_delete:
  "keys_ok m \<Longrightarrow> map_values (map_delete i m) = filter (\<lambda>t. id' t \<noteq> i) (map_values m)"
  by (induction m) (auto simp: keys_ok_def map_delete_def map_values_def)

lemma file_ids_values: "keys_ok (f_map st) \<Longrightarrow> file_ids st = id' ` set (map_values (f_map st))"
  using keys_ok_ids[of "f_map st"] by (metis file_ids_def list.set_map)

lemma rowToTodo_id: "id' (rowToTodo r) = col_id r"
  by (simp add: rowToTodo_def)

lemma same_listing_sets:
  assumes "sort_key createdAt xs = sort_key createdAt (map rowToTodo rows)"
  shows "set xs = rowToTodo ` set rows"
  using assms by (metis list.set_map set_sort)

lemma same_listing_ids:
  assumes "keys_ok (f_map st)"
    "sort_key createdAt (map_values (f_map st)) = sort_key createdAt (map rowToTodo rows)"
  shows "file_ids st = row_ids rows"
  using same_listing_sets[OF assms(2)] file_ids_values[OF assms(1)]
  by (auto simp: row_ids_def rowToTodo_id image_iff)

lemma map_get_iff:
  assumes "keys_ok m"
  shows "map_get i m = Some t \<longleftrightarrow> t \<in> set (map_values m) \<and> id' t = i"
proof
  assume g: "map_get i m = Some t"
  then have "(i, t) \<in> set m" by (simp add: map_get_def map_of_SomeD)
  with keys_ok_entry[OF assms this] map_get_in_values[OF g] show "t \<in> set (map_values m) \<and> id' t = i"
    by simp
next
  assume a: "t \<in> set (map_values m) \<and> id' t = i"
  then obtain k where kt: "(k, t) \<in> set m" by (auto simp: map_values_def)
  with keys_ok_entry[OF assms kt] a have "(i, t) \<in> set m" by simp
  moreover have "distinct (map fst m)" using assms by (simp add: keys_ok_def)
  ultimately show "map_get i m = Some t" by (simp add: map_get_def)
qed

lemma find_iff:
  assumes "distinct (map col_id rows)"
  shows "find (\<lambda>r. col_id r = i) rows = Some r \<longleftrightarrow> r \<in> set rows \<and> col_id r = i"
  using assms
proof (induction rows)
  case Nil
  then show ?case by simp
next
  case (Cons a rows)
  then show ?case by (auto simp: image_iff)
qed

lemma same_lookup:
  assumes "keys_ok m" "distinct (map col_id rows)"
    "sort_key createdAt (map_values m) = sort_key createdAt (map rowToTodo rows)"
  shows "map_get i m = map_option rowToTodo (find (\<lambda>r. col_id r = i) rows)"
proof (cases "find (\<lambda>r. col_id r = i) rows")
  case None
  then have n: "i \<notin> col_id ` set rows" by (auto simp: find_None_iff)
  have "map_get i m = None"
  proof (rule ccontr)
    assume "map_get i m \<noteq> None"
    then obtain t where "map_get i m = Some t" by auto
    then have "t \<in> set (map_values m)" "id' t = i" using map_get_iff[OF assms(1)] by auto
    then obtain r where "r \<in> set rows" "t = rowToTodo r"
      using same_listing_sets[OF assms(3)] by auto
    with \<open>id' t = i\<close> n show False by (auto simp: rowToTodo_id)
  qed
  then show ?thesis using None by simp
next
  case (Some r)
  then have r: "r \<in> set rows" "col_id r = i" using find_iff[OF assms(2)] by auto
  then have "rowToTodo r \<in> set (map_values m)" using same_listing_sets[OF assms(3)] by auto
  then have "map_get i m = Some (rowToTodo r)"
    using map_get_iff[OF assms(1)] r(2) by (simp add: rowToTodo_id)
  then show ?thesis using Some by simp
qed

lemma sim_open:
  assumes "sim True st w sst sw"
  shows "\<exists>rows. table sst sw = Inr (s_filepath sst, rows) \<and> stored_rows sst sw = rows \<and>
     distinct (map col_id rows) \<and>
     sort_key createdAt (map_values (f_map st)) = sort_key createdAt (map rowToTodo rows)"
    and "f_inited st" "s_inited sst" "keys_ok (f_map st)" "file_inv st w"
    and "f_mode st = ''onClose'' \<or> f_mode st = ''immediate''"
  using assms by (auto simp: sim_def table_def stored_rows_def file_inv_def split: option.splits)

lemma stored_rows_upd:
  "stored_rows sst (sw(s_filepath sst \<mapsto> rows)) = rows"
  by (simp add: stored_rows_def)

lemma sim_after:
  assumes "sim True st w sst sw" "file_inv st' w'" "f_inited st'"
    "distinct (map col_id rows')"
    "sort_key createdAt (map_values (f_map st')) = sort_key createdAt (map rowToTodo rows')"
  shows "sim True st' w' sst (sw(s_filepath sst \<mapsto> rows'))"
  using assms by (simp add: sim_def stored_rows_upd)

lemma sim_add:
  assumes "sim True st w sst sw" "no_failure e" "uuid e \<notin> file_ids st"
  shows "\<exists>r st' w' sw'. FileStorage_addTodo e d st w = (r, st', w') \<and>
     SqliteFileStorage_addTodo e d sst sw = (r, sst, sw') \<and> sim True st' w' sst sw' \<and>
     file_ids st' \<subseteq> insert (uuid e) (file_ids st)"
proof -
  from sim_open[OF assms(1)] obtain rows where
    t: "table sst sw = Inr (s_filepath sst, rows)" and sr: "stored_rows sst sw = rows"
    and dr: "distinct (map col_id rows)"
    and core: "sort_key createdAt (map_values (f_map st)) = sort_key createdAt (map rowToTodo rows)"
    and ini: "f_inited st" "s_inited sst" and k: "keys_ok (f_map st)" and fi: "file_inv st w"
    by blast
  from add_step_inv[OF fi ini(1) assms(2), of d] obtain r st' w' where
    a: "FileStorage_addTodo e d st w = (r, st', w')" and fi': "file_inv st' w'"
    and in': "f_inited st'"
    and rej: "title_rejected d \<longrightarrow> r = Inl ValidationError \<and> f_map st' = f_map st"
    and acc: "\<forall>dd. d = Some dd \<and> \<not> title_rejected d \<longrightarrow>
        r = Inr (new_todo e dd) \<and> f_map st' = map_set (uuid e) (new_todo e dd) (f_map st)"
    by blast
  show ?thesis
  proof (cases "title_rejected d")
    case True
    with rej have r: "r = Inl ValidationError" and m: "f_map st' = f_map st" by auto
    have "sim True st' w' sst sw"
      using assms(1) fi' in' m by (simp add: sim_def)
    moreover have "SqliteFileStorage_addTodo e d sst sw = (r, sst, sw)"
      using True ini(2) r by (simp add: sq_addTodo_rejected)
    moreover have "file_ids st' = file_ids st" by (simp add: file_ids_def m)
    ultimately show ?thesis using a by blast
  next
    case False
    then obtain dd where d: "d = Some dd" by (cases d) (auto simp: title_rejected_def)
    with acc False have r: "r = Inr (new_todo e dd)"
      and m: "f_map st' = map_set (uuid e) (new_todo e dd) (f_map st)" by auto
    have fr: "uuid e \<notin> fst ` set (f_map st)" using assms(3) by (simp add: file_ids_def)
    have v: "map_values (f_map st') = map_values (f_map st) @ [new_todo e dd]"
      by (simp add: m added_values_fresh[OF k fr])
    have ids: "file_ids st = row_ids rows" by (rule same_listing_ids[OF k core])
    then have nr: "uuid e \<notin> row_ids rows" using assms(3) by simp
    let ?row = "todo_row (new_todo e dd)"
    let ?sw = "sw(s_filepath sst \<mapsto> rows @ [?row])"
    have cr: "col_id ?row = uuid e" by (simp add: todo_row_def new_todo_def)
    have ins: "sql_insert e sst sw ?row = Inr ?sw"
      using assms(2) nr cr by (simp add: sql_insert_ok[OF t] no_failure_def)
    have sa: "SqliteFileStorage_addTodo e d sst sw = (r, sst, ?sw)"
      using False ini(2) by (simp add: d sq_addTodo_accepted ins r)
    have d': "distinct (map col_id (rows @ [?row]))"
      using dr nr cr by (simp add: row_ids_def)
    have core': "sort_key createdAt (map_values (f_map st')) =
        sort_key createdAt (map rowToTodo (rows @ [?row]))"
      using sort_key_snoc_cong[OF core, of "new_todo e dd"] by (simp add: v)
    have "sim True st' w' sst ?sw" by (rule sim_after[OF assms(1) fi' in' d' core'])
    moreover have "file_ids st' \<subseteq> insert (uuid e) (file_ids st)"
      by (simp add: file_ids_def m map_set_keys)
    ultimately show ?thesis using a sa by blast
  qed
qed

lemma sim_update:
  assumes "sim True st w sst sw" "no_failure e"
  shows "\<exists>r st' w' sw'. FileStorage_updateTodo e i p st w = (r, st', w') \<and>
     SqliteFileStorage_updateTodo e i p sst sw = (r, sst, sw') \<and> sim True st' w' sst sw' \<and>
     file_ids st' \<subseteq> file_ids st"
proof -
  from sim_open[OF assms(1)] obtain rows where
    t: "table sst sw = Inr (s_filepath sst, rows)" and sr: "stored_rows sst sw = rows"
    and dr: "distinct (map col_id rows)"
    and core: "sort_key createdAt (map_values (f_map st)) = sort_key createdAt (map rowToTodo rows)"
    and ini: "f_inited st" "s_inited sst" and k: "keys_ok (f_map st)" and fi: "file_inv st w"
    and md: "f_mode st = ''onClose'' \<or> f_mode st = ''immediate''"
    by blast
  from assms(2) have ge: "get_err e = None" and re: "run_err e = None"
    by (simp_all add: no_failure_def)
  note lk = same_lookup[OF k dr core, of i]
  show ?thesis
  proof (cases "find (\<lambda>r. col_id r = i) rows")
    case None
    then have ab: "\<not> map_has i (f_map st)" using lk by (simp add: map_has_get)
    have "i \<notin> row_ids rows" using None by (simp add: find_col_id_None)
    from sq_updateTodo_absent[OF ini(2) t ge this]
    show ?thesis using updateTodo_absent[OF ab] ini(1) assms(1) by auto
  next
    case (Some r0)
    let ?old = "rowToTodo r0"
    let ?new = "merged e p ?old"
    have g: "map_get i (f_map st) = Some ?old" using lk Some by simp
    have r0: "r0 \<in> set rows" "col_id r0 = i" using find_col_id_Some[OF Some] by auto
    let ?st1 = "st\<lparr>f_map := map_set i ?new (f_map st), f_dirty := True\<rparr>"
    have idn: "id' ?new = i" using map_get_iff[OF k] g by simp
    have k1: "keys_ok (f_map ?st1)" using k idn by (simp add: keys_ok_map_set)
    have m1: "f_mode ?st1 = ''onClose'' \<or> f_mode ?st1 = ''immediate''" using md by simp
    from write_if_immediate_inv[OF k1 m1 _ no_failure_write[OF assms(2)], of "Some ?new" w]
    obtain st' w' where wi: "write_if_immediate e (Some ?new) ?st1 w = (Inr (Some ?new), st', w')"
      and fi': "file_inv st' w'" and m': "f_map st' = f_map ?st1"
      and in': "f_inited st' = f_inited ?st1" by auto
    have fu: "FileStorage_updateTodo e i p st w = (Inr (Some ?new), st', w')"
      using ini(1) wi by (simp add: updateTodo_present[OF g])
    let ?g = "\<lambda>t. if id' t = i then merged e p t else t"
    let ?rows = "map (\<lambda>x. if col_id x = i then update_row ?new x else x) rows"
    let ?sw = "sw(s_filepath sst \<mapsto> ?rows)"
    have su: "SqliteFileStorage_updateTodo e i p sst sw = (Inr (Some ?new), sst, ?sw)"
      by (rule sq_updateTodo_present[OF ini(2) t ge re Some])
    have v: "map_values (f_map st') = map ?g (map_values (f_map st))"
      using values_map_set_present[OF k g, of "merged e p"] by (simp add: m')
    have only: "x = r0" if "x \<in> set rows" "col_id x = i" for x
      using that r0 dr by (metis distinct_map inj_onD)
    have rr: "map rowToTodo ?rows = map ?g (map rowToTodo rows)"
    proof -
      have "rowToTodo (if col_id x = i then update_row ?new x else x) = ?g (rowToTodo x)"
        if "x \<in> set rows" for x
      proof (cases "col_id x = i")
        case True
        with only[OF that] have "x = r0" by simp
        then show ?thesis using True
          by (simp add: rowToTodo_def update_row_def merged_def)
      next
        case False
        then show ?thesis by (simp add: rowToTodo_id)
      qed
      then show ?thesis by simp
    qed
    have kp: "createdAt (?g t) = createdAt t" for t by simp
    have core': "sort_key createdAt (map_values (f_map st')) =
        sort_key createdAt (map rowToTodo ?rows)"
      by (simp only: v rr sort_key_map_preserving[where c = createdAt and g = ?g, OF kp] core)
    have d': "distinct (map col_id ?rows)"
    proof -
      have "col_id (if col_id x = i then update_row ?new x else x) = col_id x" for x
        by (simp add: update_row_def)
      then have "map col_id ?rows = map col_id rows" by (simp add: comp_def)
      then show ?thesis using dr by (simp only:)
    qed
    have "sim True st' w' sst ?sw"
      using sim_after[OF assms(1) fi' _ d' core'] in' ini(1) by simp
    moreover have "file_ids st' \<subseteq> file_ids st"
      using g by (auto simp: file_ids_def m' map_set_keys map_get_def dest: map_of_SomeD
            intro: rev_image_eqI)
    ultimately show ?thesis using fu su by blast
  qed
qed

lemma sim_delete:
  assumes "sim True st w sst sw" "no_failure e"
  shows "\<exists>r st' w' sw'. FileStorage_deleteTodo e i st w = (r, st', w') \<and>
     SqliteFileStorage_deleteTodo e i sst sw = (r, sst, sw') \<and> sim True st' w' sst sw' \<and>
     file_ids st' \<subseteq> file_ids st"
proof -
  from sim_open[OF assms(1)] obtain rows where
    t: "table sst sw = Inr (s_filepath sst, rows)" and sr: "stored_rows sst sw = rows"
    and dr: "distinct (map col_id rows)"
    and core: "sort_key createdAt (map_values (f_map st)) = sort_key createdAt (map rowToTodo rows)"
    and ini: "f_inited st" "s_inited sst" and k: "keys_ok (f_map st)" and fi: "file_inv st w"
    and md: "f_mode st = ''onClose'' \<or> f_mode st = ''immediate''"
    by blast
  from assms(2) have re: "run_err e = None" by (simp add: no_failure_def)
  have ids: "file_ids st = row_ids rows" by (rule same_listing_ids[OF k core])
  let ?rows = "filter (\<lambda>r. col_id r \<noteq> i) rows"
  let ?sw = "sw(s_filepath sst \<mapsto> ?rows)"
  have sd: "SqliteFileStorage_deleteTodo e i sst sw = (Inr (i \<in> row_ids rows), sst, ?sw)"
    by (rule sq_deleteTodo_eq[OF ini(2) t re])
  show ?thesis
  proof (cases "map_has i (f_map st)")
    case False
    then have "i \<notin> row_ids rows" using ids by (simp add: map_has_keys file_ids_def)
    then have "?sw = sw" "i \<in> row_ids rows \<longleftrightarrow> False"
      using t by (auto simp: filter_absent table_def split: option.splits)
    then show ?thesis
      using deleteTodo_absent[OF False, of e w] sd ini(1) assms(1) by auto
  next
    case True
    then have ir: "i \<in> row_ids rows" using ids by (simp add: map_has_keys file_ids_def)
    let ?st1 = "st\<lparr>f_map := map_delete i (f_map st), f_dirty := True\<rparr>"
    have k1: "keys_ok (f_map ?st1)" using k by (simp add: keys_ok_map_delete)
    have m1: "f_mode ?st1 = ''onClose'' \<or> f_mode ?st1 = ''immediate''" using md by simp
    from write_if_immediate_inv[OF k1 m1 _ no_failure_write[OF assms(2)], of True w]
    obtain st' w' where wi: "write_if_immediate e True ?st1 w = (Inr True, st', w')"
      and fi': "file_inv st' w'" and m': "f_map st' = f_map ?st1"
      and in': "f_inited st' = f_inited ?st1" by auto
    have fd: "FileStorage_deleteTodo e i st w = (Inr True, st', w')"
      using ini(1) wi by (simp add: deleteTodo_present[OF True])
    have v: "map_values (f_map st') = filter (\<lambda>t. id' t \<noteq> i) (map_values (f_map st))"
      by (simp add: m' values_map_delete[OF k])
    have rr: "map rowToTodo ?rows = filter (\<lambda>t. id' t \<noteq> i) (map rowToTodo rows)"
      by (simp add: filter_map comp_def rowToTodo_id)
    have core': "sort_key createdAt (map_values (f_map st')) =
        sort_key createdAt (map rowToTodo ?rows)"
      by (simp only: v rr filter_sort[symmetric] core)
    have d': "distinct (map col_id ?rows)" using dr by (simp add: distinct_map_filter)
    have "sim True st' w' sst ?sw"
      using sim_after[OF assms(1) fi' _ d' core'] in' ini(1) by simp
    moreover have "file_ids st' \<subseteq> file_ids st"
      by (auto simp: file_ids_def m' map_delete_def)
    ultimately show ?thesis using fd sd ir by auto
  qed
qed

lemma sim_getTodoById:
  assumes "sim True st w sst sw" "no_failure e"
  shows "\<exists>r. FileStorage_getTodoById i st w = (r, st, w) \<and>
     SqliteFileStorage_getTodoById e i sst sw = (r, sst, sw)"
proof -
  from sim_open[OF assms(1)] obtain rows where
    t: "table sst sw = Inr (s_filepath sst, rows)"
    and dr: "distinct (map col_id rows)"
    and core: "sort_key createdAt (map_values (f_map st)) = sort_key createdAt (map rowToTodo rows)"
    and ini: "f_inited st" "s_inited sst" and k: "keys_ok (f_map st)"
    by blast
  from assms(2) have ge: "get_err e = None" by (simp add: no_failure_def)
  show ?thesis
    using same_lookup[OF k dr core, of i] ini(1)
    by (simp add: getTodoById_eq sq_getTodoById_eq[OF ini(2) t ge])
qed

lemma sim_getAllTodos:
  assumes "sim True st w sst sw" "no_failure e" "args_ok (GetAllTodos l off)"
  shows "\<exists>r. FileStorage_getAllTodos l off st w = (r, st, w) \<and>
     SqliteFileStorage_getAllTodos e l off sst sw = (r, sst, sw)"
proof -
  from sim_open[OF assms(1)] obtain rows where
    t: "table sst sw = Inr (s_filepath sst, rows)"
    and core: "sort_key createdAt (map_values (f_map st)) = sort_key createdAt (map rowToTodo rows)"
    and ini: "f_inited st" "s_inited sst"
    by blast
  from assms(2) have ae: "all_err e = None" by (simp add: no_failure_def)
  have c: "sort_key createdAt (map_values (f_map st)) = map rowToTodo (sort_key created_at rows)"
    by (simp add: core map_sort_key_rowToTodo)
  show ?thesis
  proof (cases l)
    case None
    then show ?thesis
      using ini(1) c by (simp add: getAllTodos_all sq_getAllTodos_all[OF ini(2) t ae])
  next
    case (Some n)
    with assms(3) have nn: "0 \<le> n" "0 \<le> off" by simp_all
    have "slice (sort_key createdAt (map_values (f_map st))) off (off + n) =
          map rowToTodo (sql_limit n off (sort_key created_at rows))"
      by (simp add: slice_nonneg[OF nn(2,1)] sql_limit_nonneg[OF nn(1)] c slice_range_def
            take_map drop_map)
    then show ?thesis
      using ini(1) Some
      by (simp add: FileStorage_getAllTodos_def Let_def sq_getAllTodos_page[OF ini(2) t ae])
  qed
qed

lemma sim_init:
  assumes "sim b st w sst sw" "no_failure e"
  shows "\<exists>st' sst' sw'. FileStorage_init e st w = (Inr (), st', w) \<and>
     SqliteFileStorage_init e sst sw = (Inr (), sst', sw') \<and> sim True st' w sst' sw' \<and>
     file_ids st' = file_ids st"
proof (cases b)
  case True
  then have "f_inited st" "s_inited sst" using assms(1) by (simp_all add: sim_def)
  then show ?thesis using assms(1) True
    by (auto simp: FileStorage_init_def FileStorage_init_begin_def SqliteFileStorage_init_def)
next
  case False
  with assms(1) have s: "\<not> f_inited st" "\<not> s_inited sst" "file_inv st w" "synced st w"
    "s_db sst = None" "distinct (map col_id (stored_rows sst sw))"
    "sort_key createdAt (map_values (f_map st)) =
        sort_key createdAt (map rowToTodo (stored_rows sst sw))"
    by (simp_all add: sim_def)
  from s(3) have md: "f_mode st = ''onClose'' \<or> f_mode st = ''immediate''"
    and k: "keys_ok (f_map st)" by (simp_all add: file_inv_def)
  from init_inv[OF s(1) md assms(2), of w] obtain st' where
    fi: "FileStorage_init e st w = (Inr (), st', w)" and inv': "file_inv st' w"
    and in': "f_inited st'" and m': "f_map st' = disk_map w (f_filepath st)" by blast
  let ?sw = "(case sw (s_filepath sst) of None \<Rightarrow> sw(s_filepath sst \<mapsto> []) | Some rows \<Rightarrow> sw)"
  let ?sst = "sst\<lparr>s_db := Some (s_filepath sst), s_inited := True\<rparr>"
  have si: "SqliteFileStorage_init e sst sw = (Inr (), ?sst, ?sw)"
    using s(2) assms(2) by (simp add: SqliteFileStorage_init_def no_failure_def Let_def)
  have rows: "stored_rows ?sst ?sw = stored_rows sst sw" "?sw (s_filepath sst) \<noteq> None"
    by (auto simp: stored_rows_def split: option.splits)
  have core': "sort_key createdAt (map_values (f_map st')) =
        sort_key createdAt (map rowToTodo (stored_rows sst sw))"
    using s(4,7) by (simp add: m' synced_def)
  have "sim True st' w ?sst ?sw"
    using inv' in' rows s(6) core' by (simp add: sim_def)
  moreover have "file_ids st' = file_ids st"
  proof -
    have k': "keys_ok (f_map st')" using inv' by (simp add: file_inv_def)
    have "sort_key createdAt (map_values (f_map st')) = sort_key createdAt (map_values (f_map st))"
      using s(4) by (simp add: m' synced_def)
    then have "set (map_values (f_map st')) = set (map_values (f_map st))"
      by (metis set_sort)
    then show ?thesis by (simp add: file_ids_values[OF k] file_ids_values[OF k'])
  qed
  ultimately show ?thesis using fi si by blast
qed

lemma sim_close:
  assumes "sim b st w sst sw" "no_failure e"
  shows "\<exists>st' w' sst'. FileStorage_close e st w = (Inr (), st', w') \<and>
     SqliteFileStorage_close e sst sw = (Inr (), sst', sw) \<and> sim False st' w' sst' sw \<and>
     file_ids st' = file_ids st"
proof (cases b)
  case False
  then have "\<not> f_inited st" "s_db sst = None" using assms(1) by (simp_all add: sim_def)
  then show ?thesis using assms(1) False
    by (auto simp: FileStorage_close_def SqliteFileStorage_close_def)
next
  case True
  with assms(1) have s: "f_inited st" "s_inited sst" "file_inv st w"
    "s_db sst = Some (s_filepath sst)" "distinct (map col_id (stored_rows sst sw))"
    "sort_key createdAt (map_values (f_map st)) =
        sort_key createdAt (map rowToTodo (stored_rows sst sw))"
    by (simp_all add: sim_def)
  from s(3) have k: "keys_ok (f_map st)" "f_mode st = ''onClose'' \<or> f_mode st = ''immediate''"
    "f_mode st = ''immediate'' \<or> \<not> f_dirty st \<longrightarrow> synced st w"
    by (simp_all add: file_inv_def)
  from close_result[OF s(1) no_failure_write[OF assms(2)] k] obtain d w' where
    fc: "FileStorage_close e st w = (Inr (), st\<lparr>f_dirty := d, f_inited := False\<rparr>, w')"
    and sy: "synced st w'" by blast
  let ?st = "st\<lparr>f_dirty := d, f_inited := False\<rparr>"
  let ?sst = "sst\<lparr>s_db := None, s_inited := False\<rparr>"
  have sc: "SqliteFileStorage_close e sst sw = (Inr (), ?sst, sw)"
    using s(4) assms(2) by (simp add: SqliteFileStorage_close_def no_failure_def)
  have sy': "synced ?st w'" using sy by (simp add: synced_def)
  have "sim False ?st w' ?sst sw"
    using k(1,2) sy' s(5,6) by (simp add: sim_def file_inv_def stored_rows_def)
  moreover have "file_ids ?st = file_ids st" by (simp add: file_ids_def)
  ultimately show ?thesis using fc sc by blast
qed

lemma reply_with_same:
  assumes "A = (r, st', w')" "B = (r, sst', sw')"
  shows "\<exists>r'. reply_with f A = (r', st', w') \<and> reply_with f B = (r', sst', sw')"
  using assms by (cases r) (simp_all add: reply_with_def)

lemma run_file_fst:
  "Database_FileStorage e c st w = (r, st1, w1) \<Longrightarrow>
   fst (run_file ((e, c) # cs) st w) = r # fst (run_file cs st1 w1)"
  by (simp split: prod.splits)

lemma run_sqlite_fst:
  "Database_SqliteFileStorage e c st w = (r, st1, w1) \<Longrightarrow>
   fst (run_sqlite ((e, c) # cs) st w) = r # fst (run_sqlite cs st1 w1)"
  by (simp split: prod.splits)

lemma sim_step:
  assumes "sim b st w sst sw" "no_failure e" "c = Init \<or> c = Close \<or> (b \<and> args_ok c)"
    "is_add c \<longrightarrow> uuid e \<notin> file_ids st"
  shows "\<exists>r st' w' sst' sw'. Database_FileStorage e c st w = (r, st', w') \<and>
     Database_SqliteFileStorage e c sst sw = (r, sst', sw') \<and>
     sim (case c of Init \<Rightarrow> True | Close \<Rightarrow> False | _ \<Rightarrow> b) st' w' sst' sw' \<and>
     file_ids st' \<subseteq> (if is_add c then insert (uuid e) (file_ids st) else file_ids st)"
proof (cases c)
  case Init
  from sim_init[OF assms(1,2)] obtain st' sst' sw' where
    a: "FileStorage_init e st w = (Inr (), st', w)"
    "SqliteFileStorage_init e sst sw = (Inr (), sst', sw')"
    and b: "sim True st' w sst' sw'" "file_ids st' = file_ids st" by blast
  from reply_with_same[OF a, of "\<lambda>u. RVoid"] b show ?thesis
    unfolding Init by auto
next
  case Close
  from sim_close[OF assms(1,2)] obtain st' w' sst' where
    a: "FileStorage_close e st w = (Inr (), st', w')"
    "SqliteFileStorage_close e sst sw = (Inr (), sst', sw)"
    and b: "sim False st' w' sst' sw" "file_ids st' = file_ids st" by blast
  from reply_with_same[OF a, of "\<lambda>u. RVoid"] b show ?thesis
    unfolding Close by auto
next
  case (AddTodo d)
  with assms have t: "sim True st w sst sw" "b" and u: "uuid e \<notin> file_ids st" by auto
  from sim_add[OF t(1) assms(2) u, of d] obtain r st' w' sw' where
    a: "FileStorage_addTodo e d st w = (r, st', w')"
    "SqliteFileStorage_addTodo e d sst sw = (r, sst, sw')"
    and b: "sim True st' w' sst sw'" "file_ids st' \<subseteq> insert (uuid e) (file_ids st)" by blast
  from reply_with_same[OF a, of RTodo] b t(2) show ?thesis
    unfolding AddTodo by auto
next
  case (GetAllTodos l off)
  with assms have t: "sim True st w sst sw" "b" and a: "args_ok (GetAllTodos l off)" by auto
  from sim_getAllTodos[OF t(1) assms(2) a] obtain r where
    a: "FileStorage_getAllTodos l off st w = (r, st, w)"
    "SqliteFileStorage_getAllTodos e l off sst sw = (r, sst, sw)" by blast
  from reply_with_same[OF a, of RTodos] t show ?thesis
    unfolding GetAllTodos by auto
next
  case (GetTodoById i)
  with assms have t: "sim True st w sst sw" "b" by auto
  from sim_getTodoById[OF t(1) assms(2), of i] obtain r where
    a: "FileStorage_getTodoById i st w = (r, st, w)"
    "SqliteFileStorage_getTodoById e i sst sw = (r, sst, sw)" by blast
  from reply_with_same[OF a, of todo_or_null] t show ?thesis
    unfolding GetTodoById by auto
next
  case (UpdateTodo i p)
  with assms have t: "sim True st w sst sw" "b" by auto
  from sim_update[OF t(1) assms(2), of i p] obtain r st' w' sw' where
    a: "FileStorage_updateTodo e i p st w = (r, st', w')"
    "SqliteFileStorage_updateTodo e i p sst sw = (r, sst, sw')"
    and b: "sim True st' w' sst sw'" "file_ids st' \<subseteq> file_ids st" by blast
  from reply_with_same[OF a, of todo_or_null] b t(2) show ?thesis
    unfolding UpdateTodo by auto
next
  case (DeleteTodo i)
  with assms have t: "sim True st w sst sw" "b" by auto
  from sim_delete[OF t(1) assms(2), of i] obtain r st' w' sw' where
    a: "FileStorage_deleteTodo e i st w = (r, st', w')"
    "SqliteFileStorage_deleteTodo e i sst sw = (r, sst, sw')"
    and b: "sim True st' w' sst sw'" "file_ids st' \<subseteq> file_ids st" by blast
  from reply_with_same[OF a, of RBool] b t(2) show ?thesis
    unfolding DeleteTodo by auto
qed

lemma contract_use_Cons:
  "contract_use b ((e, c) # cs) \<Longrightarrow>
   no_failure e \<and> (c = Init \<or> c = Close \<or> (b \<and> args_ok c)) \<and>
   contract_use (case c of Init \<Rightarrow> True | Close \<Rightarrow> False | _ \<Rightarrow> b) cs"
  by (cases c) auto

lemma add_uuids_Cons:
  "add_uuids ((e, c) # cs) = (if is_add c then uuid e # add_uuids cs else add_uuids cs)"
  by (simp add: add_uuids_def)

lemma sim_run:
  assumes "contract_use b cs" "sim b st w sst sw" "distinct (add_uuids cs)"
    "set (add_uuids cs) \<inter> file_ids st = {}"
  shows "fst (run_file cs st w) = fst (run_sqlite cs sst sw)"
  using assms
proof (induction cs arbitrary: b st w sst sw)
  case Nil
  then show ?case by simp
next
  case (Cons ec cs)
  obtain e c where ec: "ec = (e, c)" by (cases ec)
  let ?b = "case c of Init \<Rightarrow> True | Close \<Rightarrow> False | _ \<Rightarrow> b"
  from contract_use_Cons[OF Cons.prems(1)[unfolded ec]]
  have nf: "no_failure e" and ok: "c = Init \<or> c = Close \<or> (b \<and> args_ok c)"
    and rest: "contract_use ?b cs" by auto
  have fr: "is_add c \<longrightarrow> uuid e \<notin> file_ids st"
    using Cons.prems(4) by (auto simp: ec add_uuids_Cons)
  from sim_step[OF Cons.prems(2) nf ok fr] obtain r st' w' sst' sw' where
    f: "Database_FileStorage e c st w = (r, st', w')"
    and s: "Database_SqliteFileStorage e c sst sw = (r, sst', sw')"
    and sm: "sim ?b st' w' sst' sw'"
    and ids: "file_ids st' \<subseteq> (if is_add c then insert (uuid e) (file_ids st) else file_ids st)"
    by blast
  have d: "distinct (add_uuids cs)"
    using Cons.prems(3) by (simp add: ec add_uuids_Cons split: if_splits)
  have i: "set (add_uuids cs) \<inter> file_ids st' = {}"
    using Cons.prems(3,4) ids by (auto simp: ec add_uuids_Cons split: if_splits)
  from Cons.IH[OF rest sm d i] show ?case
    by (simp only: ec run_file_fst[OF f] run_sqlite_fst[OF s])
qed

lemma sim_fresh:
  assumes "FileStorage opts = Inr st0" "w0 (f_filepath st0) = None"
    "sw0 (s_filepath (SqliteFileStorage sopts)) = None"
  shows "sim False st0 w0 (SqliteFileStorage sopts) sw0 \<and> file_ids st0 = {}"
proof -
  from FileStorage_fresh[OF assms(1)] FileStorage_mode[OF assms(1)]
  have f: "f_map st0 = []" "\<not> f_inited st0" "\<not> f_dirty st0"
    "f_mode st0 = ''onClose'' \<or> f_mode st0 = ''immediate''" by auto
  have sy: "synced st0 w0" using assms(2) f(1) by (simp add: synced_def disk_map_def)
  have sq: "\<not> s_inited (SqliteFileStorage sopts)" "s_db (SqliteFileStorage sopts) = None"
    by (simp_all add: SqliteFileStorage_def)
  have r: "stored_rows (SqliteFileStorage sopts) sw0 = []"
    using assms(3) by (simp add: stored_rows_def)
  show ?thesis
    using f sy sq r by (simp add: sim_def file_inv_def file_ids_def map_values_def)
qed

text \<open>
  C1, as amended. Both backends are constructed over empty media (no file, no database)
  and receive the same sequence of calls to the seven operations, with the same clock
  readings and generated identifiers. When every call other than \<^verbatim>\<open>init\<close> and
  \<^verbatim>\<open>close\<close> is made while the backend is initialised (after an \<^verbatim>\<open>init\<close> and before the
  next \<^verbatim>\<open>close\<close>), pagination arguments are not negative, the identifiers generated for
  the \<^verbatim>\<open>addTodo\<close> calls are distinct and the medium does not fail, the two backends give
  the same replies, call by call: the same return values and the same errors.
\<close>

theorem backends_agree:
  assumes "FileStorage opts = Inr st0" "w0 (f_filepath st0) = None"
    and "sw0 (s_filepath (SqliteFileStorage sopts)) = None"
    and "contract_use False cs" "distinct (add_uuids cs)"
  shows "fst (run_file cs st0 w0) = fst (run_sqlite cs (SqliteFileStorage sopts) sw0)"
proof -
  from sim_fresh[where ?st0.0 = st0 and ?w0.0 = w0 and ?sw0.0 = sw0, OF assms(1,2,3)]
  have s: "sim False st0 w0 (SqliteFileStorage sopts) sw0" and i: "file_ids st0 = {}" by auto
  show ?thesis by (rule sim_run[OF assms(4) s assms(5)]) (simp add: i)
qed

lemma fresh_sqlite_constructed: "SqliteFileStorage default_sqlite_options = fresh_sqlite"
  by (simp add: SqliteFileStorage_def default_sqlite_options_def fresh_sqlite_def)

lemma sample_calls_use: "contract_use False sample_calls"
  by (simp add: sample_calls_def no_failure_def env_three_def ok_env_def)

lemma sample_calls_uuids: "distinct (add_uuids sample_calls)"
  by (simp add: sample_calls_def add_uuids_def)

lemma run_sqlite_sample:
  "fst (run_sqlite sample_calls fresh_sqlite Map.empty) =
     [Inr RVoid, Inr (RTodo todo_three), Inr (RTodos [todo_three]), Inr (RTodo todo_three_done),
      Inr RVoid, Inr RVoid, Inr (RTodo todo_three_done), Inr (RBool True), Inr (RTodos [])]"
  by (simp add: sample_calls_def SqliteFileStorage_init_def SqliteFileStorage_close_def
        SqliteFileStorage_addTodo_def SqliteFileStorage_updateTodo_def
        SqliteFileStorage_getAllTodos_def SqliteFileStorage_getTodoById_def
        SqliteFileStorage_deleteTodo_def sql_insert_def sql_select_all_def sql_select_by_id_def
        sql_update_def sql_delete_def sql_limit_def table_def rowToTodo_def reply_with_def
        todo_or_null_def fresh_sqlite_def env_three_def ok_env_def data_three_def patch_done_def
        todo_three_def todo_three_done_def trim_blank blank_def lead_length_def js_whitespace_def Let_def)

theorem backends_agree_witness:
  "contract_use False sample_calls \<and> distinct (add_uuids sample_calls) \<and>
   fst (run_file sample_calls fresh_file Map.empty) =
     fst (run_sqlite sample_calls fresh_sqlite Map.empty) \<and>
   fst (run_file sample_calls fresh_file Map.empty) =
     [Inr RVoid, Inr (RTodo todo_three), Inr (RTodos [todo_three]), Inr (RTodo todo_three_done),
      Inr RVoid, Inr RVoid, Inr (RTodo todo_three_done), Inr (RBool True), Inr (RTodos [])]"
proof -
  have a: "Map.empty (f_filepath fresh_file) = None" by simp
  have b: "Map.empty (s_filepath (SqliteFileStorage default_sqlite_options)) = None" by simp
  note A = backends_agree[where sopts = default_sqlite_options and ?sw0.0 = Map.empty,
      OF fresh_file_constructed a b sample_calls_use sample_calls_uuids]
  then have e: "fst (run_file sample_calls fresh_file Map.empty) =
     fst (run_sqlite sample_calls fresh_sqlite Map.empty)"
    by (simp only: fresh_sqlite_constructed)
  show ?thesis
    by (intro conjI sample_calls_use sample_calls_uuids e) (simp only: e run_sqlite_sample)
qed

text \<open>
  C1, as stated, fails: the backends differ on a call made before \<^verbatim>\<open>init\<close>. On the
  constructed instances, \<^verbatim>\<open>addTodo({title: "Three"})\<close> returns the new record on the
  File Backend, which initialises itself lazily, and raises the not-initialised error on
  the Relational Backend.
\<close>

theorem backends_differ_before_init:
  "fst (run_file [(env_three, AddTodo (Some data_three))] fresh_file Map.empty) =
     [Inr (RTodo todo_three)] \<and>
   fst (run_sqlite [(env_three, AddTodo (Some data_three))] fresh_sqlite Map.empty) =
     [Inl NotInitialized] \<and>
   fst (run_file [(env_three, AddTodo (Some data_three))] fresh_file Map.empty) \<noteq>
   fst (run_sqlite [(env_three, AddTodo (Some data_three))] fresh_sqlite Map.empty)"
  by (simp add: FileStorage_addTodo_def FileStorage_ensureInit_def write_if_immediate_def
        SqliteFileStorage_addTodo_def reply_with_def fresh_file_def fresh_sqlite_def
        env_three_def ok_env_def data_three_def todo_three_def trim_blank blank_def lead_length_def js_whitespace_def
        Let_def)

end
